theory Spec2Isabelle
  imports Main "HOL-Library.Word"
begin

unbundle bit_operations_syntax

section \<open>C arithmetic\<close>

text \<open>
  The core computes with C \<^verbatim>\<open>int\<close>. Division and remainder truncate towards zero in C,
  whereas \<open>div\<close> and \<open>mod\<close> on \<open>int\<close> round down, so both are written out. Cursors,
  scroll offsets and the boot timer are modelled as unbounded integers: every value the
  navigation code stores in them is bounded by the catalog size, a line count or
  \<^verbatim>\<open>BOOT_FRAMES\<close>. A held-frame counter has no such bound: it grows for as long as a button
  is held. Its increment is therefore modelled at the width of a C \<^verbatim>\<open>int\<close>: \<open>int_wrap\<close> is
  the 32-bit two's complement value of a result, so that incrementing \<open>INT_MAX\<close> gives
  \<open>INT_MIN\<close>, which is what the compiled core does (the overflow is undefined in C).
\<close>

definition INT_MAX :: int where "INT_MAX = 2147483647"
definition INT_MIN :: int where "INT_MIN = - 2147483648"

definition int_wrap :: "int \<Rightarrow> int" where
  "int_wrap x = (x + 2147483648) mod 4294967296 - 2147483648"

definition c_div :: "int \<Rightarrow> int \<Rightarrow> int" where
  "c_div a b = sgn a * sgn b * (\<bar>a\<bar> div \<bar>b\<bar>)"

definition c_mod :: "int \<Rightarrow> int \<Rightarrow> int" where
  "c_mod a b = a - b * c_div a b"

type_synonym u32 = "32 word"

section \<open>Screen geometry and palette (renderer.h)\<close>

definition SCREEN_W :: int where "SCREEN_W = 640"
definition SCREEN_H :: int where "SCREEN_H = 480"
definition GLYPH_W :: int where "GLYPH_W = 8"
definition GLYPH_H :: int where "GLYPH_H = 16"
definition TERM_COLS :: int where "TERM_COLS = 80"
definition TERM_ROWS :: int where "TERM_ROWS = 30"
definition BORDER_COLS :: int where "BORDER_COLS = 2"
definition BORDER_ROWS :: int where "BORDER_ROWS = 1"
definition TEXT_COLS :: int where "TEXT_COLS = 76"
definition TEXT_ROWS :: int where "TEXT_ROWS = 28"
definition HEADER_ROW :: int where "HEADER_ROW = 0"
definition CONTENT_START :: int where "CONTENT_START = 2"
definition FOOTER_ROW :: int where "FOOTER_ROW = 27"
definition CONTENT_ROWS :: int where "CONTENT_ROWS = 25"

definition COL_BORDER :: u32 where "COL_BORDER = 0xFF6C5EB5"
definition COL_BG :: u32 where "COL_BG = 0xFF4039A4"
definition COL_FG :: u32 where "COL_FG = 0xFFA0A0E0"
definition COL_TITLE :: u32 where "COL_TITLE = 0xFFFFFFFF"
definition COL_HIGHLIGHT :: u32 where "COL_HIGHLIGHT = 0xFF70E070"
definition COL_H2 :: u32 where "COL_H2 = 0xFFE0E050"
definition COL_H3 :: u32 where "COL_H3 = 0xFFC8C8E0"
definition COL_DIM :: u32 where "COL_DIM = 0xFF7070C0"
definition COL_CURSOR_FG :: u32 where "COL_CURSOR_FG = 0xFF2020A0"
definition BAR_COLOR :: u32 where "BAR_COLOR = 0xFF924A40"

section \<open>Baked-in data\<close>

text \<open>
  The headers \<^verbatim>\<open>wiki_data.h\<close>, \<^verbatim>\<open>mascot_data.h\<close> and \<^verbatim>\<open>font8x8_basic.h\<close> are generated or
  vendored at build time. Their contents are a parameter of every function below: the
  catalog of pages (\<^verbatim>\<open>wiki_pages\<close>, whose length is \<^verbatim>\<open>WIKI_PAGE_COUNT\<close>), the glyph table
  (character code and glyph row to a byte of pixels) and the mascot sprite.
\<close>

datatype line_type_t = LINE_BODY | LINE_H2 | LINE_H3

record wiki_line_t =
  line_type :: line_type_t
  line_text :: string

record wiki_page_t =
  title :: string
  lines :: "wiki_line_t list"
  line_count :: int

record rom_data =
  wiki_pages :: "wiki_page_t list"
  font8x8_basic :: "nat \<Rightarrow> nat \<Rightarrow> 8 word"
  MASCOT_W :: int
  MASCOT_H :: int
  mascot_pixels :: "nat \<Rightarrow> u32"

definition WIKI_PAGE_COUNT :: "rom_data \<Rightarrow> int" where
  "WIKI_PAGE_COUNT D = int (length (wiki_pages D))"

section \<open>Renderer primitives (renderer.c)\<close>

text \<open>
  The framebuffer is the array of \<open>SCREEN_W * SCREEN_H\<close> packed pixels that
  \<^verbatim>\<open>render_init\<close> hands to the renderer; every drawing function takes it and returns it
  updated. A C string is a \<open>string\<close>; its characters are read as \<^verbatim>\<open>unsigned char\<close>.
\<close>

type_synonym framebuf = "u32 list"

definition render_glyph :: "rom_data \<Rightarrow> int \<Rightarrow> int \<Rightarrow> nat \<Rightarrow> u32 \<Rightarrow> framebuf \<Rightarrow> framebuf" where
  "render_glyph D px py ch0 color fb =
    (let ch = (if ch0 \<ge> 128 then of_char CHR ''?'' else ch0) in
     fold (\<lambda>row fb.
       let bits = font8x8_basic D ch row;
           sy0 = py + int row * 2;
           sy1 = sy0 + 1
       in fold (\<lambda>col fb.
            if bit bits col then
              (let sx = px + int col in
               if sx \<ge> 0 \<and> sx < SCREEN_W then
                 (let fb1 = (if sy0 \<ge> 0 \<and> sy0 < SCREEN_H
                             then fb[nat (sy0 * SCREEN_W + sx) := color] else fb)
                  in (if sy1 \<ge> 0 \<and> sy1 < SCREEN_H
                      then fb1[nat (sy1 * SCREEN_W + sx) := color] else fb1))
               else fb)
            else fb) [0..<8] fb) [0..<8] fb)"

definition fill_rect :: "int \<Rightarrow> int \<Rightarrow> int \<Rightarrow> int \<Rightarrow> u32 \<Rightarrow> framebuf \<Rightarrow> framebuf" where
  "fill_rect x0a y0a x1a y1a color fb =
    (let x0 = (if x0a < 0 then 0 else x0a);
         y0 = (if y0a < 0 then 0 else y0a);
         x1 = (if x1a > SCREEN_W then SCREEN_W else x1a);
         y1 = (if y1a > SCREEN_H then SCREEN_H else y1a)
     in fold (\<lambda>y fb. fold (\<lambda>x fb. fb[nat (y * SCREEN_W + x) := color]) [x0..x1 - 1] fb)
          [y0..y1 - 1] fb)"

definition render_clear :: "framebuf \<Rightarrow> framebuf" where
  "render_clear fb =
    (let fb1 = fold (\<lambda>i fb. fb[i := COL_BORDER]) [0..<nat (SCREEN_W * SCREEN_H)] fb;
         x0 = BORDER_COLS * GLYPH_W;
         y0 = BORDER_ROWS * GLYPH_H;
         x1 = (TERM_COLS - BORDER_COLS) * GLYPH_W;
         y1 = (TERM_ROWS - BORDER_ROWS) * GLYPH_H
     in fill_rect x0 y0 x1 y1 COL_BG fb1)"

text \<open>
  The loop shared by \<^verbatim>\<open>render_text\<close> and \<^verbatim>\<open>render_text_inv\<close>: glyph \<open>i\<close> of the string is
  drawn while the string has not ended and column \<open>col + i\<close> is inside the text area.
\<close>

fun text_loop :: "rom_data \<Rightarrow> int \<Rightarrow> int \<Rightarrow> int \<Rightarrow> int \<Rightarrow> string \<Rightarrow> u32 \<Rightarrow> framebuf \<Rightarrow> framebuf" where
  "text_loop D col scol py i [] color fb = fb"
| "text_loop D col scol py i (c # cs) color fb =
    (if of_char c \<noteq> (0::nat) \<and> col + i < TEXT_COLS
     then text_loop D col scol py (i + 1) cs color
            (render_glyph D ((scol + i) * GLYPH_W) py (of_char c) color fb)
     else fb)"

definition render_text :: "rom_data \<Rightarrow> int \<Rightarrow> int \<Rightarrow> string \<Rightarrow> u32 \<Rightarrow> framebuf \<Rightarrow> framebuf" where
  "render_text D col row str color fb =
    (let scol = col + BORDER_COLS;
         srow = row + BORDER_ROWS
     in text_loop D col scol (srow * GLYPH_H) 0 str color fb)"

definition render_text_inv :: "rom_data \<Rightarrow> int \<Rightarrow> int \<Rightarrow> string \<Rightarrow> u32 \<Rightarrow> u32 \<Rightarrow> framebuf \<Rightarrow> framebuf" where
  "render_text_inv D col row str fg bg fb =
    (let scol = col + BORDER_COLS;
         srow = row + BORDER_ROWS;
         px0 = scol * GLYPH_W;
         py0 = srow * GLYPH_H;
         fb1 = fill_rect px0 py0 (px0 + TEXT_COLS * GLYPH_W) (py0 + GLYPH_H) bg fb
     in text_loop D col scol py0 0 str fg fb1)"

definition render_hline :: "rom_data \<Rightarrow> int \<Rightarrow> char \<Rightarrow> u32 \<Rightarrow> framebuf \<Rightarrow> framebuf" where
  "render_hline D row ch color fb =
    (let scol = BORDER_COLS;
         srow = row + BORDER_ROWS;
         py = srow * GLYPH_H
     in fold (\<lambda>i fb. render_glyph D ((scol + i) * GLYPH_W) py (of_char ch) color fb)
          [0..TEXT_COLS - 1] fb)"

section \<open>Boot screen (renderer.c)\<close>

definition strlen :: "string \<Rightarrow> int" where
  "strlen str = int (length (takeWhile (\<lambda>c. of_char c \<noteq> (0::nat)) str))"

text \<open>\<^verbatim>\<open>type_line\<close> draws the first \<open>avail\<close> characters and returns the length of the string.\<close>

definition type_line :: "rom_data \<Rightarrow> string \<Rightarrow> int \<Rightarrow> int \<Rightarrow> int \<Rightarrow> u32 \<Rightarrow> framebuf \<Rightarrow> int \<times> framebuf" where
  "type_line D str col row avail color fb =
    (let len = strlen str
     in if avail > 0
        then (let n = (if avail < len then avail else len);
                  buf = take (nat n) str
              in (len, render_text D col row buf color fb))
        else (len, fb))"

definition blink_cursor :: "int \<Rightarrow> int \<Rightarrow> int \<Rightarrow> framebuf \<Rightarrow> framebuf" where
  "blink_cursor col row frame fb =
    (if c_mod (c_div frame 30) 2 = 0
     then (let scol = col + BORDER_COLS;
               srow = row + BORDER_ROWS;
               px = scol * GLYPH_W;
               py = srow * GLYPH_H
           in fill_rect px py (px + GLYPH_W) (py + GLYPH_H) COL_FG fb)
     else fb)"

definition render_mascot :: "rom_data \<Rightarrow> int \<Rightarrow> int \<Rightarrow> int \<Rightarrow> framebuf \<Rightarrow> framebuf" where
  "render_mascot D cx cy alpha fb =
    (let x0 = cx - c_div (MASCOT_W D) 2;
         y0 = cy - c_div (MASCOT_H D) 2
     in fold (\<lambda>y fb.
          let sy = y0 + y in
          if sy < 0 \<or> sy \<ge> SCREEN_H then fb
          else fold (\<lambda>x fb.
            let sx = x0 + x in
            if sx < 0 \<or> sx \<ge> SCREEN_W then fb
            else (let px = mascot_pixels D (nat (y * MASCOT_W D + x)) in
              if drop_bit 24 px = 0 then fb
              else if alpha \<ge> 255
              then fb[nat (sy * SCREEN_W + sx) := px OR 0xFF000000]
              else (let sr = uint (drop_bit 16 px AND 0xFF);
                        sg = uint (drop_bit 8 px AND 0xFF);
                        sb = uint (px AND 0xFF);
                        br = uint (drop_bit 16 COL_BG AND 0xFF);
                        bgc = uint (drop_bit 8 COL_BG AND 0xFF);
                        bb = uint (COL_BG AND 0xFF);
                        r = br + c_div ((sr - br) * alpha) 255;
                        g = bgc + c_div ((sg - bgc) * alpha) 255;
                        b = bb + c_div ((sb - bb) * alpha) 255
                    in fb[nat (sy * SCREEN_W + sx) :=
                         0xFF000000 OR push_bit 16 (word_of_int r)
                           OR push_bit 8 (word_of_int g) OR word_of_int b])))
            [0..MASCOT_W D - 1] fb)
          [0..MASCOT_H D - 1] fb)"

function bar_loop :: "int \<Rightarrow> int \<Rightarrow> int \<Rightarrow> int \<Rightarrow> int \<Rightarrow> int \<Rightarrow> framebuf \<Rightarrow> framebuf" where
  "bar_loop x0 y0 bar_h seg_w filled i fb =
    (if i < 20 \<and> i * seg_w < filled
     then (let sx = x0 + i * seg_w;
               sw0 = seg_w - 1;
               sw = (if sx + sw0 > x0 + filled then x0 + filled - sx else sw0);
               fb1 = (if sw > 0
                      then fill_rect sx (y0 + 1) (sx + sw) (y0 + bar_h - 1) BAR_COLOR fb
                      else fb)
           in bar_loop x0 y0 bar_h seg_w filled (i + 1) fb1)
     else fb)"
  by pat_completeness auto
termination
  by (relation "measure (\<lambda>(x0, y0, bar_h, seg_w, filled, i, fb). nat (20 - i))") auto

declare bar_loop.simps [simp del]

definition render_loading_bar :: "int \<Rightarrow> int \<Rightarrow> framebuf \<Rightarrow> framebuf" where
  "render_loading_bar cy progress fb =
    (let bar_w = 320;
         bar_h = 12;
         x0 = c_div (SCREEN_W - bar_w) 2;
         y0 = cy - c_div bar_h 2;
         fb1 = fill_rect (x0 - 2) (y0 - 2) (x0 + bar_w + 2) (y0 + bar_h + 2) COL_DIM fb;
         fb2 = fill_rect x0 y0 (x0 + bar_w) (y0 + bar_h) COL_BG fb1;
         filled = c_div (bar_w * progress) 256;
         seg_w = c_div bar_w 20
     in bar_loop x0 y0 bar_h seg_w filled 0 fb2)"

definition load_cmd :: string where
  "load_cmd = ''LOAD '' @ [CHR 0x22] @ ''EMUVR'' @ [CHR 0x22] @ '',8,1''"

definition boot_phase1 :: "rom_data \<Rightarrow> int \<Rightarrow> framebuf \<Rightarrow> framebuf" where
  "boot_phase1 D frame fb0 =
    (let banner = ''**** COMMODORE 64 BASIC V2 ****'';
         ram = ''64K RAM SYSTEM  38911 BASIC BYTES FREE'';
         load_len = strlen load_cmd;
         fb1 = (if frame \<ge> 0
                then render_text D (c_div (TEXT_COLS - strlen banner) 2) 1 banner COL_TITLE fb0
                else fb0);
         fb2 = (if frame \<ge> 2
                then render_text D (c_div (TEXT_COLS - strlen ram) 2) 3 ram COL_FG fb1
                else fb1);
         fb3 = (if frame \<ge> 10 then render_text D 0 5 ''READY.'' COL_FG fb2 else fb2);
         fb4 = (if frame \<ge> 20
                then (let chars0 = c_div (frame - 20) 4;
                          chars = (if chars0 > load_len then load_len else chars0);
                          fba = snd (type_line D load_cmd 0 6 chars COL_FG fb3)
                      in if chars < load_len then blink_cursor chars 6 frame fba
                         else if frame < 100 then blink_cursor load_len 6 frame fba
                         else fba)
                else fb3);
         fb5 = (if frame \<ge> 110 then render_text D 0 8 ''SEARCHING FOR EMUVR'' COL_FG fb4 else fb4);
         fb6 = (if frame \<ge> 230 then render_text D 0 9 ''LOADING'' COL_FG fb5 else fb5);
         fb7 = (if frame \<ge> 340 then render_text D 0 11 ''READY.'' COL_FG fb6 else fb6)
     in if frame \<ge> 345
        then (let run = ''RUN'';
                  run_len = 3;
                  chars0 = c_div (frame - 345) 4;
                  chars = (if chars0 > run_len then run_len else chars0);
                  fba = snd (type_line D run 0 12 chars COL_FG fb7)
              in blink_cursor (if chars < run_len then chars else run_len) 12 frame fba)
        else fb7)"

definition boot_phase2 :: "rom_data \<Rightarrow> int \<Rightarrow> framebuf \<Rightarrow> framebuf" where
  "boot_phase2 D frame fb0 =
    (let pf = frame - 360;
         fade0 = c_div (pf * 255) 60;
         fade = (if fade0 > 255 then 255 else fade0);
         mascot_cy = c_div SCREEN_H 2 - 40;
         fb1 = render_mascot D (c_div SCREEN_W 2) mascot_cy fade fb0;
         bar_cy = mascot_cy + c_div (MASCOT_H D) 2 + 55;
         progress0 = c_div ((pf - 30) * 256) 150;
         progress1 = (if progress0 < 0 then 0 else progress0);
         progress = (if progress1 > 256 then 256 else progress1);
         fb2 = render_loading_bar bar_cy progress fb1
     in if pf > 20
        then (let msg = ''LOADING EMUVR WIKI...'';
                  mx = c_div (TEXT_COLS - strlen msg) 2;
                  msg_row = c_div (bar_cy - 20) GLYPH_H - BORDER_ROWS
              in if msg_row \<ge> 0 \<and> msg_row < TEXT_ROWS
                 then render_text D mx msg_row msg COL_DIM fb2 else fb2)
        else fb2)"

definition boot_phase3 :: "rom_data \<Rightarrow> framebuf \<Rightarrow> framebuf" where
  "boot_phase3 D fb0 =
    (let mascot_cy = c_div SCREEN_H 2 - 40;
         fb1 = render_mascot D (c_div SCREEN_W 2) mascot_cy 255 fb0;
         bar_cy = mascot_cy + c_div (MASCOT_H D) 2 + 55;
         fb2 = render_loading_bar bar_cy 256 fb1;
         msg = ''LOADING EMUVR WIKI...'';
         mx = c_div (TEXT_COLS - strlen msg) 2;
         msg_row = c_div (bar_cy - 20) GLYPH_H - BORDER_ROWS
     in if msg_row \<ge> 0 \<and> msg_row < TEXT_ROWS
        then render_text D mx msg_row msg COL_DIM fb2 else fb2)"

text \<open>
  \<^verbatim>\<open>render_boot\<close>: clear the screen, then draw the phase the frame number selects
  (the three branches of the source are the three phase functions above).
\<close>

definition render_boot :: "rom_data \<Rightarrow> int \<Rightarrow> framebuf \<Rightarrow> framebuf" where
  "render_boot D frame fb =
    (let fb0 = render_clear fb
     in if frame < 360 then boot_phase1 D frame fb0
        else if frame < 560 then boot_phase2 D frame fb0
        else boot_phase3 D fb0)"

section \<open>Formatted text\<close>

text \<open>
  The fragments of \<^verbatim>\<open>snprintf\<close> the two list screens use: \<^verbatim>\<open>%d\<close>, \<^verbatim>\<open>%s\<close>, the
  left-justified \<^verbatim>\<open>%-Ns\<close>, and the truncation of the result to the buffer
  (one character less than the buffer size, then the terminator).
\<close>

fun dec_digits :: "nat \<Rightarrow> string" where
  "dec_digits n =
    (if n < 10 then [char_of (48 + n)]
     else dec_digits (n div 10) @ [char_of (48 + n mod 10)])"

definition fmt_d :: "int \<Rightarrow> string" where
  "fmt_d i = (if i < 0 then CHR ''-'' # dec_digits (nat (- i)) else dec_digits (nat i))"

definition fmt_s :: "string \<Rightarrow> string" where
  "fmt_s str = takeWhile (\<lambda>c. of_char c \<noteq> (0::nat)) str"

definition fmt_s_left :: "nat \<Rightarrow> string \<Rightarrow> string" where
  "fmt_s_left w str = fmt_s str @ replicate (w - length (fmt_s str)) CHR '' ''"

definition snprintf :: "int \<Rightarrow> string \<Rightarrow> string" where
  "snprintf sz str = take (nat (sz - 1)) str"

section \<open>Table of contents and page viewer screens (renderer.c)\<close>

function toc_list_loop :: "rom_data \<Rightarrow> int \<Rightarrow> int \<Rightarrow> int \<Rightarrow> int \<Rightarrow> framebuf \<Rightarrow> framebuf" where
  "toc_list_loop D cursor scroll list_rows i fb =
    (if i < list_rows \<and> scroll + i < WIKI_PAGE_COUNT D
     then (let page_idx = scroll + i;
               row = 4 + i;
               selected = (page_idx = cursor);
               ttl = title (wiki_pages D ! nat page_idx);
               fb1 = (if selected
                      then render_text_inv D 0 row
                             (snprintf (TEXT_COLS + 1) ('' > '' @ fmt_s_left 73 ttl))
                             COL_CURSOR_FG COL_HIGHLIGHT fb
                      else render_text D 0 row
                             (snprintf (TEXT_COLS + 1) (''   '' @ fmt_s ttl)) COL_FG fb)
           in toc_list_loop D cursor scroll list_rows (i + 1) fb1)
     else fb)"
  by pat_completeness auto
termination
  by (relation "measure (\<lambda>(D, cursor, scroll, list_rows, i, fb). nat (list_rows - i))") auto

declare toc_list_loop.simps [simp del]

definition render_toc :: "rom_data \<Rightarrow> int \<Rightarrow> int \<Rightarrow> framebuf \<Rightarrow> framebuf" where
  "render_toc D cursor scroll fb =
    (let fb0 = render_clear fb;
         ttl = ''**** THE EMU PAGES ****'';
         cx = c_div (TEXT_COLS - strlen ttl) 2;
         fb1 = render_text D cx 0 ttl COL_TITLE fb0;
         info = snprintf (TEXT_COLS + 1)
                  (fmt_d (WIKI_PAGE_COUNT D) @ '' WIKI PAGES LOADED. READY.'');
         fb2 = render_text D 1 2 info COL_FG fb1;
         fb3 = render_hline D 3 CHR ''-'' COL_DIM fb2;
         list_rows = CONTENT_ROWS - 3;
         fb4 = toc_list_loop D cursor scroll list_rows 0 fb3;
         fb5 = (if scroll > 0 then render_text D (TEXT_COLS - 3) 3 ''[^]'' COL_DIM fb4 else fb4);
         fb6 = (if scroll + list_rows < WIKI_PAGE_COUNT D
                then render_text D (TEXT_COLS - 3) (FOOTER_ROW - 1) ''[v]'' COL_DIM fb5
                else fb5);
         fb7 = render_hline D (FOOTER_ROW - 1) CHR ''-'' COL_DIM fb6
     in render_text D 1 FOOTER_ROW
          ''[UP/DN] SELECT  [A] OPEN  [LEFT/RIGHT] PREV/NEXT'' COL_DIM fb7)"

function page_lines_loop :: "rom_data \<Rightarrow> wiki_page_t \<Rightarrow> int \<Rightarrow> int \<Rightarrow> framebuf \<Rightarrow> framebuf" where
  "page_lines_loop D page scroll i fb =
    (if i < CONTENT_ROWS
     then (let line_idx = scroll + i in
           if line_idx \<ge> line_count page then fb
           else (let line = lines page ! nat line_idx;
                     color = (case line_type line of
                                LINE_H2 \<Rightarrow> COL_H2
                              | LINE_H3 \<Rightarrow> COL_H3
                              | LINE_BODY \<Rightarrow> COL_FG);
                     fb1 = (if line_type line = LINE_H2
                            then render_text D 0 (CONTENT_START + i)
                                   (snprintf (TEXT_COLS + 1)
                                      (''== '' @ fmt_s (line_text line) @ '' ==''))
                                   color fb
                            else if line_type line = LINE_H3
                            then render_text D 0 (CONTENT_START + i)
                                   (snprintf (TEXT_COLS + 1)
                                      (''--- '' @ fmt_s (line_text line) @ '' ---''))
                                   color fb
                            else render_text D 1 (CONTENT_START + i) (line_text line) color fb)
                 in page_lines_loop D page scroll (i + 1) fb1))
     else fb)"
  by pat_completeness auto
termination
  by (relation "measure (\<lambda>(D, page, scroll, i, fb). nat (CONTENT_ROWS - i))") auto

declare page_lines_loop.simps [simp del]

definition render_page :: "rom_data \<Rightarrow> int \<Rightarrow> int \<Rightarrow> framebuf \<Rightarrow> framebuf" where
  "render_page D page_idx scroll fb =
    (let fb0 = render_clear fb;
         page = wiki_pages D ! nat page_idx;
         header = snprintf (TEXT_COLS + 1)
                    (''<< '' @ fmt_s_left 60 (title page) @ '' ['' @ fmt_d (page_idx + 1)
                       @ ''/'' @ fmt_d (WIKI_PAGE_COUNT D) @ '']'');
         fb1 = render_text D 0 HEADER_ROW header COL_TITLE fb0;
         fb2 = render_hline D 1 CHR ''='' COL_DIM fb1;
         max_scroll0 = line_count page - CONTENT_ROWS;
         max_scroll = (if max_scroll0 < 0 then 0 else max_scroll0);
         fb3 = page_lines_loop D page scroll 0 fb2;
         fb4 = (if scroll > 0 then render_text D (TEXT_COLS - 3) 1 ''[^]'' COL_DIM fb3 else fb3);
         fb5 = (if scroll < max_scroll
                then render_text D (TEXT_COLS - 3) (FOOTER_ROW - 1) ''[v]'' COL_DIM fb4
                else fb4);
         fb6 = render_hline D (FOOTER_ROW - 1) CHR ''-'' COL_DIM fb5
     in render_text D 1 FOOTER_ROW
          ''[UP/DN] SCROLL  [B] BACK  [L/R] PG UP/DN  [<//>] PREV/NEXT'' COL_DIM fb6)"

section \<open>Core state (emu_pages.c)\<close>

datatype core_state_t = STATE_BOOT | STATE_TOC | STATE_PAGE

definition BOOT_FRAMES :: int where "BOOT_FRAMES = 600"
definition AUDIO_RATE :: int where "AUDIO_RATE = 44100"
definition AUDIO_FRAMES :: int where "AUDIO_FRAMES = 735"
definition REPEAT_DELAY :: int where "REPEAT_DELAY = 24"
definition REPEAT_RATE :: int where "REPEAT_RATE = 4"
definition BTN_COUNT :: nat where "BTN_COUNT = 16"

text \<open>The joypad button ids of \<^verbatim>\<open>libretro.h\<close> the core polls.\<close>

definition RETRO_DEVICE_ID_JOYPAD_B :: nat where "RETRO_DEVICE_ID_JOYPAD_B = 0"
definition RETRO_DEVICE_ID_JOYPAD_START :: nat where "RETRO_DEVICE_ID_JOYPAD_START = 3"
definition RETRO_DEVICE_ID_JOYPAD_UP :: nat where "RETRO_DEVICE_ID_JOYPAD_UP = 4"
definition RETRO_DEVICE_ID_JOYPAD_DOWN :: nat where "RETRO_DEVICE_ID_JOYPAD_DOWN = 5"
definition RETRO_DEVICE_ID_JOYPAD_LEFT :: nat where "RETRO_DEVICE_ID_JOYPAD_LEFT = 6"
definition RETRO_DEVICE_ID_JOYPAD_RIGHT :: nat where "RETRO_DEVICE_ID_JOYPAD_RIGHT = 7"
definition RETRO_DEVICE_ID_JOYPAD_A :: nat where "RETRO_DEVICE_ID_JOYPAD_A = 8"
definition RETRO_DEVICE_ID_JOYPAD_L :: nat where "RETRO_DEVICE_ID_JOYPAD_L = 10"
definition RETRO_DEVICE_ID_JOYPAD_R :: nat where "RETRO_DEVICE_ID_JOYPAD_R = 11"

text \<open>
  The file-level variables of the core, as one record. \<open>held_frames\<close> is the array of
  \<open>BTN_COUNT\<close> counters, read and written only at button ids below \<open>BTN_COUNT\<close>.
  A \<open>joypad\<close> is what \<^verbatim>\<open>input_state_cb(0, RETRO_DEVICE_JOYPAD, 0, id)\<close> answers during one
  frame, for each button id; the host calls made by a frame are returned as a list.
\<close>

type_synonym joypad = "nat \<Rightarrow> int"

record session =
  framebuffer :: framebuf
  state :: core_state_t
  game_loaded :: bool
  boot_timer :: int
  toc_cursor :: int
  toc_scroll :: int
  current_page :: int
  page_scroll :: int
  audio_silence :: "int list"
  held_frames :: "nat \<Rightarrow> int"

datatype host_event =
    INPUT_POLL
  | VIDEO_REFRESH framebuf int int int
  | AUDIO_SAMPLE_BATCH "int list" int

section \<open>Input handling with auto-repeat (emu_pages.c)\<close>

definition btn_pressed :: "joypad \<Rightarrow> nat \<Rightarrow> session \<Rightarrow> bool \<times> session" where
  "btn_pressed inp btn s =
    (if inp btn \<noteq> 0
     then (let s1 = s\<lparr>held_frames := (held_frames s)(btn := int_wrap (held_frames s btn + 1))\<rparr>
           in if held_frames s1 btn = 1 then (True, s1)
              else if held_frames s1 btn \<ge> REPEAT_DELAY
                      \<and> c_mod (held_frames s1 btn - REPEAT_DELAY) REPEAT_RATE = 0
              then (True, s1)
              else (False, s1))
     else (False, s\<lparr>held_frames := (held_frames s)(btn := 0)\<rparr>))"

function any_btn_loop :: "joypad \<Rightarrow> nat \<Rightarrow> bool" where
  "any_btn_loop inp i =
    (if i < BTN_COUNT then (if inp i \<noteq> 0 then True else any_btn_loop inp (i + 1)) else False)"
  by pat_completeness auto
termination
  by (relation "measure (\<lambda>(inp, i). BTN_COUNT - i)") auto

declare any_btn_loop.simps [simp del]

definition any_btn_pressed :: "joypad \<Rightarrow> bool" where
  "any_btn_pressed inp = any_btn_loop inp 0"

text \<open>
  The two shapes in which the handlers poll: \<^verbatim>\<open>if (btn_pressed(b)) { body }\<close>, and
  \<^verbatim>\<open>if (btn_pressed(b1) || btn_pressed(b2)) { body }\<close>, where the second button is polled
  only when the first did not fire.
\<close>

definition on_press :: "joypad \<Rightarrow> nat \<Rightarrow> (session \<Rightarrow> session) \<Rightarrow> session \<Rightarrow> session" where
  "on_press inp btn body s =
    (case btn_pressed inp btn s of (p, s1) \<Rightarrow> if p then body s1 else s1)"

definition on_press_either :: "joypad \<Rightarrow> nat \<Rightarrow> nat \<Rightarrow> (session \<Rightarrow> session) \<Rightarrow> session \<Rightarrow> session" where
  "on_press_either inp btn1 btn2 body s =
    (case btn_pressed inp btn1 s of (p1, s1) \<Rightarrow>
       if p1 then body s1
       else (case btn_pressed inp btn2 s1 of (p2, s2) \<Rightarrow> if p2 then body s2 else s2))"

section \<open>Input handlers per state (emu_pages.c)\<close>

text \<open>The bodies of the six \<^verbatim>\<open>if\<close> statements of \<^verbatim>\<open>handle_toc_input\<close>, in source order.\<close>

definition toc_up :: "session \<Rightarrow> session" where
  "toc_up s =
    (let s1 = (if toc_cursor s > 0 then s\<lparr>toc_cursor := toc_cursor s - 1\<rparr> else s)
     in if toc_cursor s1 < toc_scroll s1 then s1\<lparr>toc_scroll := toc_cursor s1\<rparr> else s1)"

definition toc_down :: "rom_data \<Rightarrow> int \<Rightarrow> session \<Rightarrow> session" where
  "toc_down D list_rows s =
    (let s1 = (if toc_cursor s < WIKI_PAGE_COUNT D - 1
               then s\<lparr>toc_cursor := toc_cursor s + 1\<rparr> else s)
     in if toc_cursor s1 \<ge> toc_scroll s1 + list_rows
        then s1\<lparr>toc_scroll := toc_cursor s1 - list_rows + 1\<rparr> else s1)"

definition toc_page_up :: "int \<Rightarrow> session \<Rightarrow> session" where
  "toc_page_up list_rows s =
    (let s1 = s\<lparr>toc_cursor := toc_cursor s - list_rows\<rparr>;
         s2 = (if toc_cursor s1 < 0 then s1\<lparr>toc_cursor := 0\<rparr> else s1)
     in s2\<lparr>toc_scroll := toc_cursor s2\<rparr>)"

definition toc_page_down :: "rom_data \<Rightarrow> int \<Rightarrow> session \<Rightarrow> session" where
  "toc_page_down D list_rows s =
    (let s1 = s\<lparr>toc_cursor := toc_cursor s + list_rows\<rparr>;
         s2 = (if toc_cursor s1 \<ge> WIKI_PAGE_COUNT D
               then s1\<lparr>toc_cursor := WIKI_PAGE_COUNT D - 1\<rparr> else s1)
     in if toc_cursor s2 \<ge> toc_scroll s2 + list_rows
        then s2\<lparr>toc_scroll := toc_cursor s2 - list_rows + 1\<rparr> else s2)"

definition toc_open :: "session \<Rightarrow> session" where
  "toc_open s = s\<lparr>current_page := toc_cursor s, page_scroll := 0, state := STATE_PAGE\<rparr>"

definition toc_left :: "session \<Rightarrow> session" where
  "toc_left s =
    (let s1 = (if toc_cursor s > 0 then s\<lparr>toc_cursor := toc_cursor s - 1\<rparr> else s);
         s2 = (if toc_cursor s1 < toc_scroll s1 then s1\<lparr>toc_scroll := toc_cursor s1\<rparr> else s1)
     in s2\<lparr>current_page := toc_cursor s2, page_scroll := 0, state := STATE_PAGE\<rparr>)"

definition handle_toc_input :: "rom_data \<Rightarrow> joypad \<Rightarrow> session \<Rightarrow> session" where
  "handle_toc_input D inp s0 =
    (let list_rows = CONTENT_ROWS - 3;
         s1 = on_press inp RETRO_DEVICE_ID_JOYPAD_UP toc_up s0;
         s2 = on_press inp RETRO_DEVICE_ID_JOYPAD_DOWN (toc_down D list_rows) s1;
         s3 = on_press inp RETRO_DEVICE_ID_JOYPAD_L (toc_page_up list_rows) s2;
         s4 = on_press inp RETRO_DEVICE_ID_JOYPAD_R (toc_page_down D list_rows) s3;
         s5 = on_press_either inp RETRO_DEVICE_ID_JOYPAD_A RETRO_DEVICE_ID_JOYPAD_RIGHT
                toc_open s4
     in on_press inp RETRO_DEVICE_ID_JOYPAD_LEFT toc_left s5)"

text \<open>
  The first four polls of \<^verbatim>\<open>handle_toc_input\<close> (Up, Down, L and R): they leave the state in
  which the open press of the same frame is handled.
\<close>

definition toc_cursor_moves :: "rom_data \<Rightarrow> joypad \<Rightarrow> session \<Rightarrow> session" where
  "toc_cursor_moves D inp s0 =
    (let list_rows = CONTENT_ROWS - 3;
         s1 = on_press inp RETRO_DEVICE_ID_JOYPAD_UP toc_up s0;
         s2 = on_press inp RETRO_DEVICE_ID_JOYPAD_DOWN (toc_down D list_rows) s1;
         s3 = on_press inp RETRO_DEVICE_ID_JOYPAD_L (toc_page_up list_rows) s2
     in on_press inp RETRO_DEVICE_ID_JOYPAD_R (toc_page_down D list_rows) s3)"

text \<open>The bodies of the seven \<^verbatim>\<open>if\<close> statements of \<^verbatim>\<open>handle_page_input\<close>, in source order.\<close>

definition page_line_up :: "session \<Rightarrow> session" where
  "page_line_up s = (if page_scroll s > 0 then s\<lparr>page_scroll := page_scroll s - 1\<rparr> else s)"

definition page_line_down :: "int \<Rightarrow> session \<Rightarrow> session" where
  "page_line_down max_scroll s =
    (if page_scroll s < max_scroll then s\<lparr>page_scroll := page_scroll s + 1\<rparr> else s)"

definition page_view_up :: "session \<Rightarrow> session" where
  "page_view_up s =
    (let s1 = s\<lparr>page_scroll := page_scroll s - CONTENT_ROWS\<rparr>
     in if page_scroll s1 < 0 then s1\<lparr>page_scroll := 0\<rparr> else s1)"

definition page_view_down :: "int \<Rightarrow> session \<Rightarrow> session" where
  "page_view_down max_scroll s =
    (let s1 = s\<lparr>page_scroll := page_scroll s + CONTENT_ROWS\<rparr>
     in if page_scroll s1 > max_scroll then s1\<lparr>page_scroll := max_scroll\<rparr> else s1)"

definition page_prev :: "rom_data \<Rightarrow> session \<Rightarrow> session" where
  "page_prev D s =
    (let s1 = s\<lparr>current_page := current_page s - 1\<rparr>;
         s2 = (if current_page s1 < 0
               then s1\<lparr>current_page := WIKI_PAGE_COUNT D - 1\<rparr> else s1)
     in s2\<lparr>page_scroll := 0\<rparr>)"

definition page_next :: "rom_data \<Rightarrow> session \<Rightarrow> session" where
  "page_next D s =
    (let s1 = s\<lparr>current_page := current_page s + 1\<rparr>;
         s2 = (if current_page s1 \<ge> WIKI_PAGE_COUNT D then s1\<lparr>current_page := 0\<rparr> else s1)
     in s2\<lparr>page_scroll := 0\<rparr>)"

definition page_back :: "session \<Rightarrow> session" where
  "page_back s =
    (let s1 = s\<lparr>toc_cursor := current_page s, state := STATE_TOC\<rparr>;
         list_rows = CONTENT_ROWS - 3;
         s2 = (if toc_cursor s1 < toc_scroll s1 then s1\<lparr>toc_scroll := toc_cursor s1\<rparr> else s1)
     in if toc_cursor s2 \<ge> toc_scroll s2 + list_rows
        then s2\<lparr>toc_scroll := toc_cursor s2 - list_rows + 1\<rparr> else s2)"

definition handle_page_input :: "rom_data \<Rightarrow> joypad \<Rightarrow> session \<Rightarrow> session" where
  "handle_page_input D inp s0 =
    (let max_scroll0 = line_count (wiki_pages D ! nat (current_page s0)) - CONTENT_ROWS;
         max_scroll = (if max_scroll0 < 0 then 0 else max_scroll0);
         s1 = on_press inp RETRO_DEVICE_ID_JOYPAD_UP page_line_up s0;
         s2 = on_press inp RETRO_DEVICE_ID_JOYPAD_DOWN (page_line_down max_scroll) s1;
         s3 = on_press inp RETRO_DEVICE_ID_JOYPAD_L page_view_up s2;
         s4 = on_press inp RETRO_DEVICE_ID_JOYPAD_R (page_view_down max_scroll) s3;
         s5 = on_press inp RETRO_DEVICE_ID_JOYPAD_LEFT (page_prev D) s4;
         s6 = on_press inp RETRO_DEVICE_ID_JOYPAD_RIGHT (page_next D) s5
     in on_press_either inp RETRO_DEVICE_ID_JOYPAD_B RETRO_DEVICE_ID_JOYPAD_START
          page_back s6)"

section \<open>Libretro API (emu_pages.c)\<close>

text \<open>The static initialisers: the state of the core before the host calls anything.\<close>

definition power_on :: session where
  "power_on =
    \<lparr>framebuffer = replicate (nat (SCREEN_W * SCREEN_H)) 0,
     state = STATE_BOOT, game_loaded = False, boot_timer = 0,
     toc_cursor = 0, toc_scroll = 0, current_page = 0, page_scroll = 0,
     audio_silence = replicate (nat (AUDIO_FRAMES * 2)) 0,
     held_frames = (\<lambda>_. 0)\<rparr>"

definition retro_init :: "session \<Rightarrow> session" where
  "retro_init s =
    s\<lparr>framebuffer := replicate (nat (SCREEN_W * SCREEN_H)) 0,
      held_frames := (\<lambda>_. 0),
      audio_silence := replicate (nat (AUDIO_FRAMES * 2)) 0\<rparr>"

text \<open>
  \<^verbatim>\<open>retro_load_game\<close>: \<open>has_path\<close> says that the host passed a game info with a path,
  \<open>fmt_ok\<close> that it accepted the XRGB8888 pixel format. Either failure returns false and
  leaves the session as it was. The messages sent to the log callback are left out, and
  \<^verbatim>\<open>render_init\<close> only tells the renderer which array to draw into: here every renderer
  function takes that array as an argument.
\<close>

definition retro_load_game :: "bool \<Rightarrow> bool \<Rightarrow> session \<Rightarrow> bool \<times> session" where
  "retro_load_game has_path fmt_ok s =
    (if \<not> has_path then (False, s)
     else if \<not> fmt_ok then (False, s)
     else (True, s\<lparr>state := STATE_BOOT, boot_timer := 0, toc_cursor := 0, toc_scroll := 0,
                   current_page := 0, page_scroll := 0, held_frames := (\<lambda>_. 0),
                   game_loaded := True\<rparr>))"

definition retro_unload_game :: "session \<Rightarrow> session" where
  "retro_unload_game s = s\<lparr>game_loaded := False\<rparr>"

definition retro_reset :: "session \<Rightarrow> session" where
  "retro_reset s =
    s\<lparr>state := STATE_BOOT, boot_timer := 0, toc_cursor := 0, toc_scroll := 0,
      current_page := 0, page_scroll := 0\<rparr>"

definition retro_run :: "rom_data \<Rightarrow> joypad \<Rightarrow> session \<Rightarrow> session \<times> host_event list" where
  "retro_run D inp s =
    (if \<not> game_loaded s then (s, [])
     else
       (let s3 =
          (case state s of
             STATE_BOOT \<Rightarrow>
               (let s1 = s\<lparr>boot_timer := boot_timer s + 1\<rparr>;
                    s2 = (if boot_timer s1 \<ge> BOOT_FRAMES \<or> any_btn_pressed inp
                          then s1\<lparr>state := STATE_TOC, held_frames := (\<lambda>_. 0)\<rparr>
                          else s1)
                in s2\<lparr>framebuffer := render_boot D (boot_timer s2) (framebuffer s2)\<rparr>)
           | STATE_TOC \<Rightarrow>
               (let s1 = handle_toc_input D inp s
                in s1\<lparr>framebuffer :=
                        render_toc D (toc_cursor s1) (toc_scroll s1) (framebuffer s1)\<rparr>)
           | STATE_PAGE \<Rightarrow>
               (let s1 = handle_page_input D inp s
                in s1\<lparr>framebuffer :=
                        render_page D (current_page s1) (page_scroll s1) (framebuffer s1)\<rparr>))
        in (s3, [INPUT_POLL,
                 VIDEO_REFRESH (framebuffer s3) SCREEN_W SCREEN_H (SCREEN_W * 4),
                 AUDIO_SAMPLE_BATCH (audio_silence s3) AUDIO_FRAMES])))"

section \<open>Sessions as sequences of host calls\<close>

text \<open>
  The host drives the core through its entry points. A session is a list of such calls;
  \<open>run_calls\<close> applies them in order and returns the core state reached.
\<close>

datatype host_call =
    CALL_RUN joypad
  | CALL_RESET
  | CALL_UNLOAD
  | CALL_LOAD bool bool
  | CALL_INIT

fun host_step :: "rom_data \<Rightarrow> host_call \<Rightarrow> session \<Rightarrow> session" where
  "host_step D (CALL_RUN inp) s = fst (retro_run D inp s)"
| "host_step D CALL_RESET s = retro_reset s"
| "host_step D CALL_UNLOAD s = retro_unload_game s"
| "host_step D (CALL_LOAD has_path fmt_ok) s = snd (retro_load_game has_path fmt_ok s)"
| "host_step D CALL_INIT s = retro_init s"

definition run_calls :: "rom_data \<Rightarrow> host_call list \<Rightarrow> session \<Rightarrow> session" where
  "run_calls D calls s = fold (host_step D) calls s"

text \<open>
  The bounds on the four navigation variables: the Contents cursor and the current page
  index inside the catalog, the Contents scroll offset within the last full window of
  \<open>CONTENT_ROWS - 3\<close> rows, the viewer scroll offset within the last full window of
  \<open>CONTENT_ROWS\<close> lines of the current page.
\<close>

definition nav_in_range :: "rom_data \<Rightarrow> session \<Rightarrow> bool" where
  "nav_in_range D s =
    (0 \<le> toc_cursor s \<and> toc_cursor s \<le> WIKI_PAGE_COUNT D - 1
     \<and> 0 \<le> toc_scroll s
     \<and> toc_scroll s \<le> max 0 (WIKI_PAGE_COUNT D - (CONTENT_ROWS - 3))
     \<and> 0 \<le> current_page s \<and> current_page s \<le> WIKI_PAGE_COUNT D - 1
     \<and> 0 \<le> page_scroll s
     \<and> page_scroll s
         \<le> max 0 (line_count (wiki_pages D ! nat (current_page s)) - CONTENT_ROWS))"

text \<open>
  The number of logical presses one button produces over consecutive frames: the button
  is polled once per frame with that frame's joypad reading.
\<close>

fun press_events :: "joypad list \<Rightarrow> nat \<Rightarrow> session \<Rightarrow> nat" where
  "press_events [] btn s = 0"
| "press_events (inp # inps) btn s =
    (case btn_pressed inp btn s of (p, s1) \<Rightarrow> (if p then 1 else 0) + press_events inps btn s1)"

text \<open>
  Polling a button in a given state: whether it fires a logical press, and the state it
  leaves (the two components of \<open>btn_pressed\<close>).
\<close>

definition fires :: "joypad \<Rightarrow> nat \<Rightarrow> session \<Rightarrow> bool" where
  "fires inp btn s = fst (btn_pressed inp btn s)"

definition poll :: "joypad \<Rightarrow> nat \<Rightarrow> session \<Rightarrow> session" where
  "poll inp btn s = snd (btn_pressed inp btn s)"

text \<open>
  The repeat rule in the words of the specification, on the value \<open>c\<close> of the counter:
  \<^verbatim>\<open>press := counter==1 || (counter>=24 && (counter-24)%4==0)\<close>; and the number of
  counter values from 1 to \<open>c\<close> at which that rule fires.
\<close>

definition spec_press :: "int \<Rightarrow> bool" where
  "spec_press c = (c = 1 \<or> (c \<ge> 24 \<and> 4 dvd (c - 24)))"

definition presses_up_to :: "int \<Rightarrow> int" where
  "presses_up_to c = (if c \<le> 0 then 0 else if c < 24 then 1 else 2 + (c - 24) div 4)"

text \<open>
  Sample data for concrete evaluations: a catalog of \<open>n\<close> pages of \<open>k\<close> lines each with
  an empty font and no sprite, and the joypad reading with exactly the listed buttons down.
\<close>

definition sample_rom :: "nat \<Rightarrow> nat \<Rightarrow> rom_data" where
  "sample_rom n k =
    \<lparr>wiki_pages = replicate n
       \<lparr>title = ''PAGE'',
        lines = replicate k \<lparr>line_type = LINE_BODY, line_text = ''TEXT''\<rparr>,
        line_count = int k\<rparr>,
     font8x8_basic = (\<lambda>_ _. 0), MASCOT_W = 0, MASCOT_H = 0, mascot_pixels = (\<lambda>_. 0)\<rparr>"

definition buttons_down :: "nat list \<Rightarrow> joypad" where
  "buttons_down bs = (\<lambda>b. if b \<in> set bs then 1 else 0)"

text \<open>
  Two states of a loaded session: the Contents screen with the cursor at \<open>c\<close> and the
  list scrolled to \<open>sc\<close>, and the viewer on line \<open>ps\<close> of document \<open>cp\<close> with the Contents
  list left scrolled to \<open>sc\<close>.
\<close>

definition contents_at :: "int \<Rightarrow> int \<Rightarrow> session" where
  "contents_at c sc =
    (snd (retro_load_game True True power_on))
      \<lparr>state := STATE_TOC, toc_cursor := c, toc_scroll := sc\<rparr>"

definition viewing_at :: "int \<Rightarrow> int \<Rightarrow> int \<Rightarrow> session" where
  "viewing_at cp ps sc =
    (snd (retro_load_game True True power_on))
      \<lparr>state := STATE_PAGE, current_page := cp, page_scroll := ps, toc_scroll := sc\<rparr>"

section \<open>The auto-repeat rule\<close>

lemma c_mod_nonneg: "0 \<le> a \<Longrightarrow> 0 < b \<Longrightarrow> c_mod a b = a mod b"
  by (cases "a = 0") (simp_all add: c_mod_def c_div_def minus_mult_div_eq_mod)

lemma int_wrap_id: "INT_MIN \<le> x \<Longrightarrow> x \<le> INT_MAX \<Longrightarrow> int_wrap x = x"
  by (simp add: int_wrap_def INT_MIN_def INT_MAX_def)

lemma int_wrap_range: "INT_MIN \<le> int_wrap x \<and> int_wrap x \<le> INT_MAX"
proof -
  have "0 \<le> (x + 2147483648) mod 4294967296" and "(x + 2147483648) mod 4294967296 < 4294967296"
    by simp_all
  then show ?thesis by (simp add: int_wrap_def INT_MIN_def INT_MAX_def)
qed

lemma int_wrap_overflow: "int_wrap (INT_MAX + 1) = INT_MIN"
  by (simp add: int_wrap_def INT_MIN_def INT_MAX_def)

text \<open>
  One poll of a button, in closed form: it fires when the button reads down and the
  incremented counter satisfies the repeat rule, and it changes nothing but that
  button's counter.
\<close>

lemma btn_pressed_eq:
  "btn_pressed inp btn s =
    (inp btn \<noteq> 0 \<and> spec_press (int_wrap (held_frames s btn + 1)),
     s\<lparr>held_frames := (held_frames s)
        (btn := if inp btn \<noteq> 0 then int_wrap (held_frames s btn + 1) else 0)\<rparr>)"
proof (cases "inp btn = 0")
  case True
  then show ?thesis by (simp add: btn_pressed_def)
next
  case False
  have "24 \<le> c \<Longrightarrow> (c_mod (c - 24) 4 = 0) = (4 dvd (c - 24))" for c :: int
    by (simp add: c_mod_nonneg dvd_eq_mod_eq_0)
  then have "(c = 1 \<or> (24 \<le> c \<and> c_mod (c - 24) 4 = 0)) = spec_press c" for c :: int
    unfolding spec_press_def by blast
  with False show ?thesis
    by (auto simp add: btn_pressed_def Let_def REPEAT_DELAY_def REPEAT_RATE_def)
qed

lemma div4_step:
  "0 \<le> k \<Longrightarrow> (k + 1) div 4 - k div 4 = (if (k + 1) mod 4 = 0 then 1 else 0)" for k :: int
  by (simp split: if_splits; arith)

lemma presses_step:
  assumes c0: "0 \<le> c"
  shows "presses_up_to (c + 1) - presses_up_to c = (if spec_press (c + 1) then 1 else 0)"
proof -
  consider "c = 0" | "0 < c" "c < 23" | "c = 23" | "24 \<le> c" using c0 by linarith
  then show ?thesis
  proof cases
    case 1
    then show ?thesis by (simp add: presses_up_to_def spec_press_def)
  next
    case 2
    then show ?thesis by (simp add: presses_up_to_def spec_press_def)
  next
    case 3
    then show ?thesis by (simp add: presses_up_to_def spec_press_def)
  next
    case 4
    then have "0 \<le> c - 24" by simp
    from div4_step [OF this] 4 show ?thesis
      by (simp add: presses_up_to_def spec_press_def dvd_eq_mod_eq_0)
  qed
qed

text \<open>
  Holding a button whose counter stands at \<open>h\<close> for \<open>n\<close> more frames produces as many
  presses as the repeat rule fires on the counter values \<open>h + 1\<close> to \<open>h + n\<close>, as long as
  the counter stays within a C \<^verbatim>\<open>int\<close>.
\<close>

lemma press_events_hold:
  "0 \<le> held_frames s btn \<Longrightarrow> held_frames s btn + int (length inps) \<le> INT_MAX \<Longrightarrow>
   \<forall>inp\<in>set inps. inp btn \<noteq> 0 \<Longrightarrow>
   int (press_events inps btn s) =
     presses_up_to (held_frames s btn + int (length inps)) - presses_up_to (held_frames s btn)"
proof (induction inps arbitrary: s)
  case Nil
  then show ?case by simp
next
  case (Cons inp inps)
  define h where "h = held_frames s btn"
  define n where "n = int (length inps)"
  let ?s1 = "snd (btn_pressed inp btn s)"
  have down: "inp btn \<noteq> 0" using Cons.prems by simp
  have h0: "0 \<le> h" using Cons.prems by (simp add: h_def)
  have top: "h + 1 + n \<le> INT_MAX" using Cons.prems(2) by (simp add: h_def n_def)
  have "int_wrap (h + 1) = h + 1"
    using h0 top by (intro int_wrap_id) (simp_all add: INT_MIN_def n_def)
  then have c1: "held_frames ?s1 btn = h + 1"
    using down by (simp add: btn_pressed_eq h_def)
  have "int (press_events inps btn ?s1) =
      presses_up_to (held_frames ?s1 btn + int (length inps)) - presses_up_to (held_frames ?s1 btn)"
    using Cons.prems c1 h0 top by (intro Cons.IH) (simp_all add: n_def)
  then have ih: "int (press_events inps btn ?s1) = presses_up_to (h + 1 + n) - presses_up_to (h + 1)"
    by (simp add: c1 n_def)
  have f: "fst (btn_pressed inp btn s) = spec_press (h + 1)"
    using down c1 by (simp add: btn_pressed_eq h_def)
  have step: "presses_up_to (h + 1) - presses_up_to h = (if spec_press (h + 1) then 1 else 0)"
    using h0 by (rule presses_step)
  have "int (press_events (inp # inps) btn s) =
      (if spec_press (h + 1) then 1 else 0) + int (press_events inps btn ?s1)"
    using f by (simp add: split_def)
  also have "\<dots> = presses_up_to (h + 1 + n) - presses_up_to h"
    using ih step by linarith
  finally show ?case
    by (simp add: h_def n_def add.assoc)
qed

text \<open>
  Claim C2. Each poll of a button resets its counter to 0 when the button reads up and
  increments it when the button reads down: to the old value plus one for every counter
  below \<open>INT_MAX\<close>, and with the wrap of a C \<^verbatim>\<open>int\<close> at \<open>INT_MAX\<close>. At every counter value,
  the poll fires a logical press exactly when the counter then equals 1, or is at least 24
  with \<open>counter - 24\<close> divisible by 4. Consequently a button that was up and is then held
  down yields exactly 1 press over 23 consecutive frames, 2 over 24 frames and 3 over 28
  frames.
\<close>

theorem btn_pressed_repeat_rule:
  "fst (btn_pressed inp btn s) = spec_press (held_frames (snd (btn_pressed inp btn s)) btn)
   \<and> held_frames (snd (btn_pressed inp btn s)) btn
        = (if inp btn \<noteq> 0 then int_wrap (held_frames s btn + 1) else 0)
   \<and> (INT_MIN \<le> held_frames s btn \<and> held_frames s btn < INT_MAX \<longrightarrow>
        held_frames (snd (btn_pressed inp btn s)) btn
          = (if inp btn \<noteq> 0 then held_frames s btn + 1 else 0))
   \<and> (held_frames s btn = INT_MAX \<and> inp btn \<noteq> 0 \<longrightarrow>
        held_frames (snd (btn_pressed inp btn s)) btn = INT_MIN
        \<and> \<not> fst (btn_pressed inp btn s))
   \<and> (held_frames s btn = 0 \<and> (\<forall>i\<in>set inps. i btn \<noteq> 0) \<longrightarrow>
        (length inps = 23 \<longrightarrow> press_events inps btn s = 1)
        \<and> (length inps = 24 \<longrightarrow> press_events inps btn s = 2)
        \<and> (length inps = 28 \<longrightarrow> press_events inps btn s = 3))"
proof -
  have poll: "fst (btn_pressed inp btn s) = spec_press (held_frames (snd (btn_pressed inp btn s)) btn)"
    by (simp add: btn_pressed_eq spec_press_def)
  have counter: "held_frames (snd (btn_pressed inp btn s)) btn
        = (if inp btn \<noteq> 0 then int_wrap (held_frames s btn + 1) else 0)"
    by (simp add: btn_pressed_eq)
  have in_range: "held_frames (snd (btn_pressed inp btn s)) btn
          = (if inp btn \<noteq> 0 then held_frames s btn + 1 else 0)"
    if "INT_MIN \<le> held_frames s btn" "held_frames s btn < INT_MAX"
  proof -
    have "int_wrap (held_frames s btn + 1) = held_frames s btn + 1"
      using that by (intro int_wrap_id) simp_all
    then show ?thesis using counter by simp
  qed
  have at_max: "held_frames (snd (btn_pressed inp btn s)) btn = INT_MIN
        \<and> \<not> fst (btn_pressed inp btn s)"
    if "held_frames s btn = INT_MAX" "inp btn \<noteq> 0"
    using that int_wrap_overflow
    by (simp add: btn_pressed_eq spec_press_def INT_MIN_def)
  have hold: "press_events inps btn s = nat (presses_up_to (int (length inps)))"
    if "held_frames s btn = 0" and "\<forall>i\<in>set inps. i btn \<noteq> 0" and "length inps \<le> 28"
  proof -
    have "int (press_events inps btn s) = presses_up_to (int (length inps)) - presses_up_to 0"
      using press_events_hold [of s btn inps] that by (simp add: INT_MAX_def)
    then show ?thesis by (simp add: presses_up_to_def)
  qed
  have "press_events inps btn s = 1" if "held_frames s btn = 0" "\<forall>i\<in>set inps. i btn \<noteq> 0"
    "length inps = 23"
    using hold [OF that(1,2)] that(3) by (simp add: presses_up_to_def)
  moreover have "press_events inps btn s = 2" if "held_frames s btn = 0" "\<forall>i\<in>set inps. i btn \<noteq> 0"
    "length inps = 24"
    using hold [OF that(1,2)] that(3) by (simp add: presses_up_to_def)
  moreover have "press_events inps btn s = 3" if "held_frames s btn = 0" "\<forall>i\<in>set inps. i btn \<noteq> 0"
    "length inps = 28"
    using hold [OF that(1,2)] that(3) by (simp add: presses_up_to_def)
  ultimately show ?thesis using poll counter in_range at_max by blast
qed

theorem btn_pressed_repeat_rule_witness:
  "press_events (replicate 23 (buttons_down [RETRO_DEVICE_ID_JOYPAD_DOWN]))
      RETRO_DEVICE_ID_JOYPAD_DOWN power_on = 1
   \<and> press_events (replicate 24 (buttons_down [RETRO_DEVICE_ID_JOYPAD_DOWN]))
      RETRO_DEVICE_ID_JOYPAD_DOWN power_on = 2
   \<and> press_events (replicate 28 (buttons_down [RETRO_DEVICE_ID_JOYPAD_DOWN]))
      RETRO_DEVICE_ID_JOYPAD_DOWN power_on = 3
   \<and> fst (btn_pressed (buttons_down [RETRO_DEVICE_ID_JOYPAD_DOWN])
        RETRO_DEVICE_ID_JOYPAD_DOWN power_on)
   \<and> held_frames (snd (btn_pressed (buttons_down [RETRO_DEVICE_ID_JOYPAD_DOWN])
        RETRO_DEVICE_ID_JOYPAD_DOWN power_on)) RETRO_DEVICE_ID_JOYPAD_DOWN = 1
   \<and> held_frames (snd (btn_pressed (buttons_down [RETRO_DEVICE_ID_JOYPAD_DOWN])
        RETRO_DEVICE_ID_JOYPAD_DOWN
        (power_on\<lparr>held_frames := (\<lambda>_. INT_MAX)\<rparr>))) RETRO_DEVICE_ID_JOYPAD_DOWN = INT_MIN"
proof -
  let ?inp = "buttons_down [RETRO_DEVICE_ID_JOYPAD_DOWN]"
  let ?b = "RETRO_DEVICE_ID_JOYPAD_DOWN"
  let ?top = "power_on\<lparr>held_frames := (\<lambda>_. INT_MAX)\<rparr>"
  have up: "held_frames power_on ?b = 0" by (simp add: power_on_def)
  have range0: "INT_MIN \<le> (0 :: int)" "(0 :: int) < INT_MAX"
    by (simp_all add: INT_MIN_def INT_MAX_def)
  have full: "held_frames ?top ?b = INT_MAX" by simp
  have down: "\<forall>i\<in>set (replicate n ?inp). i ?b \<noteq> 0" for n
    by (simp add: buttons_down_def)
  have down1: "?inp ?b \<noteq> 0" by (simp add: buttons_down_def)
  have one: "spec_press 1" by (simp add: spec_press_def)
  show ?thesis
    using btn_pressed_repeat_rule [of ?inp ?b power_on "replicate 23 ?inp"]
      btn_pressed_repeat_rule [of ?inp ?b power_on "replicate 24 ?inp"]
      btn_pressed_repeat_rule [of ?inp ?b power_on "replicate 28 ?inp"]
      btn_pressed_repeat_rule [of ?inp ?b ?top "[]"]
      up range0 full down down1 one
    by simp
qed

section \<open>Polling inside the handlers\<close>

lemma poll_eq:
  "poll inp b s =
     s\<lparr>held_frames := (held_frames s)
        (b := if inp b \<noteq> 0 then int_wrap (held_frames s b + 1) else 0)\<rparr>"
  by (simp add: poll_def btn_pressed_eq)

lemma fires_eq:
  "fires inp b s = (inp b \<noteq> 0 \<and> spec_press (int_wrap (held_frames s b + 1)))"
  by (simp add: fires_def btn_pressed_eq)

lemma on_press_eq:
  "on_press inp b body s = (if fires inp b s then body (poll inp b s) else poll inp b s)"
  by (simp add: on_press_def fires_def poll_def split_def)

lemma on_press_either_eq:
  "on_press_either inp b1 b2 body s =
    (if fires inp b1 s then body (poll inp b1 s)
     else if fires inp b2 (poll inp b1 s) then body (poll inp b2 (poll inp b1 s))
     else poll inp b2 (poll inp b1 s))"
  by (simp add: on_press_either_def fires_def poll_def split_def)

lemma on_press_inv:
  assumes "\<And>t. P t \<Longrightarrow> P (body t)" and "\<And>t. P t \<Longrightarrow> P (poll inp b t)" and "P s"
  shows "P (on_press inp b body s)"
  using assms by (simp add: on_press_eq)

lemma on_press_either_inv:
  assumes "\<And>t. P t \<Longrightarrow> P (body t)" and "\<And>b t. P t \<Longrightarrow> P (poll inp b t)" and "P s"
  shows "P (on_press_either inp b1 b2 body s)"
  using assms by (simp add: on_press_either_eq)

section \<open>Bounds on cursors and scroll offsets\<close>

lemma nav_in_range_poll: "nav_in_range D (poll inp b s) = nav_in_range D s"
  by (simp add: poll_eq nav_in_range_def)

lemma current_page_poll: "current_page (poll inp b s) = current_page s"
  by (simp add: poll_eq)

lemma toc_up_range: "nav_in_range D s \<Longrightarrow> nav_in_range D (toc_up s)"
  by (auto simp add: nav_in_range_def toc_up_def Let_def)

lemma toc_down_range:
  "nav_in_range D s \<Longrightarrow> nav_in_range D (toc_down D (CONTENT_ROWS - 3) s)"
  by (auto simp add: nav_in_range_def toc_down_def Let_def CONTENT_ROWS_def)

lemma toc_page_up_range:
  "nav_in_range D s \<Longrightarrow> nav_in_range D (toc_page_up (CONTENT_ROWS - 3) s)"
  by (auto simp add: nav_in_range_def toc_page_up_def Let_def CONTENT_ROWS_def)

lemma toc_page_down_range:
  "nav_in_range D s \<Longrightarrow> nav_in_range D (toc_page_down D (CONTENT_ROWS - 3) s)"
  by (auto simp add: nav_in_range_def toc_page_down_def Let_def CONTENT_ROWS_def)

lemma toc_open_range: "nav_in_range D s \<Longrightarrow> nav_in_range D (toc_open s)"
  by (auto simp add: nav_in_range_def toc_open_def Let_def)

lemma toc_left_range: "nav_in_range D s \<Longrightarrow> nav_in_range D (toc_left s)"
  by (auto simp add: nav_in_range_def toc_left_def Let_def)

lemma page_line_up_range: "nav_in_range D s \<Longrightarrow> nav_in_range D (page_line_up s)"
  by (auto simp add: nav_in_range_def page_line_up_def Let_def)

lemma page_line_down_range:
  "nav_in_range D s \<Longrightarrow>
   nav_in_range D (page_line_down (max 0 (line_count (wiki_pages D ! nat (current_page s)) - CONTENT_ROWS)) s)"
  by (auto simp add: nav_in_range_def page_line_down_def Let_def)

lemma page_view_up_range: "nav_in_range D s \<Longrightarrow> nav_in_range D (page_view_up s)"
  by (auto simp add: nav_in_range_def page_view_up_def Let_def CONTENT_ROWS_def)

lemma page_view_down_range:
  "nav_in_range D s \<Longrightarrow>
   nav_in_range D (page_view_down (max 0 (line_count (wiki_pages D ! nat (current_page s)) - CONTENT_ROWS)) s)"
  by (auto simp add: nav_in_range_def page_view_down_def Let_def CONTENT_ROWS_def)

lemma page_prev_range:
  "nav_in_range D s \<Longrightarrow> nav_in_range D (page_prev D s)"
  by (auto simp add: nav_in_range_def page_prev_def Let_def)

lemma page_next_range:
  "nav_in_range D s \<Longrightarrow> nav_in_range D (page_next D s)"
  by (auto simp add: nav_in_range_def page_next_def Let_def)

lemma page_back_range:
  "nav_in_range D s \<Longrightarrow> nav_in_range D (page_back s)"
  by (auto simp add: nav_in_range_def page_back_def Let_def CONTENT_ROWS_def)


lemma handle_toc_input_range:
  assumes "nav_in_range D s"
  shows "nav_in_range D (handle_toc_input D inp s)"
  unfolding handle_toc_input_def Let_def
  by (intro on_press_inv [where P = "nav_in_range D"]
        on_press_either_inv [where P = "nav_in_range D"] assms)
     (simp_all add: nav_in_range_poll toc_up_range toc_down_range toc_page_up_range
        toc_page_down_range toc_open_range toc_left_range)

lemma handle_page_input_range:
  assumes "nav_in_range D s"
  shows "nav_in_range D (handle_page_input D inp s)"
proof -
  define m where "m = max 0 (line_count (wiki_pages D ! nat (current_page s)) - CONTENT_ROWS)"
  define P where "P t = (nav_in_range D t \<and> current_page t = current_page s)" for t
  define s4 where "s4 =
    on_press inp RETRO_DEVICE_ID_JOYPAD_R (page_view_down m)
      (on_press inp RETRO_DEVICE_ID_JOYPAD_L page_view_up
        (on_press inp RETRO_DEVICE_ID_JOYPAD_DOWN (page_line_down m)
          (on_press inp RETRO_DEVICE_ID_JOYPAD_UP page_line_up s)))"
  have m_eq: "(if line_count (wiki_pages D ! nat (current_page s)) - CONTENT_ROWS < 0 then 0
      else line_count (wiki_pages D ! nat (current_page s)) - CONTENT_ROWS) = m"
    by (simp add: m_def max_def)
  have P_poll: "P t \<Longrightarrow> P (poll inp b t)" for t b
    by (simp add: P_def nav_in_range_poll current_page_poll)
  have up: "P t \<Longrightarrow> P (page_line_up t)" for t
    using page_line_up_range [of D t] by (simp add: P_def) (simp add: page_line_up_def)
  have down: "P t \<Longrightarrow> P (page_line_down m t)" for t
    using page_line_down_range [of D t] by (simp add: P_def m_def) (simp add: page_line_down_def)
  have vup: "P t \<Longrightarrow> P (page_view_up t)" for t
    using page_view_up_range [of D t] by (simp add: P_def) (simp add: page_view_up_def Let_def)
  have vdown: "P t \<Longrightarrow> P (page_view_down m t)" for t
    using page_view_down_range [of D t]
    by (simp add: P_def m_def) (simp add: page_view_down_def Let_def)
  have "P s" using assms by (simp add: P_def)
  then have "P s4"
    unfolding s4_def by (intro on_press_inv [where P = P] up down vup vdown P_poll)
  then have r4: "nav_in_range D s4" by (simp add: P_def)
  have "handle_page_input D inp s =
      on_press_either inp RETRO_DEVICE_ID_JOYPAD_B RETRO_DEVICE_ID_JOYPAD_START page_back
        (on_press inp RETRO_DEVICE_ID_JOYPAD_RIGHT (page_next D)
          (on_press inp RETRO_DEVICE_ID_JOYPAD_LEFT (page_prev D) s4))"
    unfolding handle_page_input_def Let_def m_eq s4_def by (rule refl)
  then show ?thesis
    using r4
    by (simp only:)
       (intro on_press_inv [where P = "nav_in_range D"]
          on_press_either_inv [where P = "nav_in_range D"],
        simp_all add: nav_in_range_poll page_prev_range page_next_range page_back_range)
qed

lemma retro_run_range:
  assumes "nav_in_range D s"
  shows "nav_in_range D (fst (retro_run D inp s))"
proof (cases "game_loaded s")
  case False
  then show ?thesis using assms by (simp add: retro_run_def)
next
  case True
  show ?thesis
  proof (cases "state s")
    case STATE_BOOT
    then show ?thesis using True assms
      by (simp add: retro_run_def Let_def nav_in_range_def)
  next
    case STATE_TOC
    then show ?thesis using True handle_toc_input_range [OF assms, of inp]
      by (simp add: retro_run_def Let_def nav_in_range_def)
  next
    case STATE_PAGE
    then show ?thesis using True handle_page_input_range [OF assms, of inp]
      by (simp add: retro_run_def Let_def nav_in_range_def)
  qed
qed

lemma zero_nav_range:
  assumes "1 \<le> WIKI_PAGE_COUNT D"
    and "toc_cursor s = 0" "toc_scroll s = 0" "current_page s = 0" "page_scroll s = 0"
  shows "nav_in_range D s"
  using assms by (simp add: nav_in_range_def)

lemma host_step_range:
  assumes "1 \<le> WIKI_PAGE_COUNT D" and "nav_in_range D s"
  shows "nav_in_range D (host_step D call s)"
proof (cases call)
  case (CALL_RUN inp)
  then show ?thesis using assms(2) by (simp add: retro_run_range)
next
  case CALL_RESET
  then show ?thesis using assms(1) by (simp add: retro_reset_def zero_nav_range)
next
  case CALL_UNLOAD
  then show ?thesis using assms(2) by (simp add: retro_unload_game_def nav_in_range_def)
next
  case (CALL_LOAD has_path fmt_ok)
  then show ?thesis using assms by (simp add: retro_load_game_def zero_nav_range)
next
  case CALL_INIT
  then show ?thesis using assms(2) by (simp add: retro_init_def nav_in_range_def)
qed

lemma run_calls_range:
  assumes "1 \<le> WIKI_PAGE_COUNT D"
  shows "nav_in_range D s \<Longrightarrow> nav_in_range D (run_calls D calls s)"
  unfolding run_calls_def
  by (induction calls arbitrary: s) (simp_all add: host_step_range [OF assms])


text \<open>
  Claim C1. For a catalog of at least one document, after a successful load and any
  sequence of host calls (frames with arbitrary joypad readings, resets, unloads and
  reloads), the Contents cursor and the current document index are in \<open>[0, N - 1]\<close>, the
  Contents scroll offset is in \<open>[0, max 0 (N - (CONTENT_ROWS - 3))]\<close> and the viewer scroll
  offset is in \<open>[0, max 0 (line_count - CONTENT_ROWS)]\<close> for the current document.
  The same bounds hold after every single operation of the two handlers: single step,
  page step, open, previous and next document, and back.
\<close>

theorem navigation_stays_in_range:
  assumes "1 \<le> WIKI_PAGE_COUNT D"
  shows "nav_in_range D (run_calls D calls (snd (retro_load_game True True s0)))
    \<and> (nav_in_range D s \<longrightarrow>
          nav_in_range D (toc_up s)
        \<and> nav_in_range D (toc_down D (CONTENT_ROWS - 3) s)
        \<and> nav_in_range D (toc_page_up (CONTENT_ROWS - 3) s)
        \<and> nav_in_range D (toc_page_down D (CONTENT_ROWS - 3) s)
        \<and> nav_in_range D (toc_open s)
        \<and> nav_in_range D (toc_left s)
        \<and> nav_in_range D (page_line_up s)
        \<and> nav_in_range D (page_line_down
              (max 0 (line_count (wiki_pages D ! nat (current_page s)) - CONTENT_ROWS)) s)
        \<and> nav_in_range D (page_view_up s)
        \<and> nav_in_range D (page_view_down
              (max 0 (line_count (wiki_pages D ! nat (current_page s)) - CONTENT_ROWS)) s)
        \<and> nav_in_range D (page_prev D s)
        \<and> nav_in_range D (page_next D s)
        \<and> nav_in_range D (page_back s))"
proof -
  have "nav_in_range D (snd (retro_load_game True True s0))"
    using assms by (simp add: retro_load_game_def zero_nav_range)
  then have "nav_in_range D (run_calls D calls (snd (retro_load_game True True s0)))"
    by (rule run_calls_range [OF assms])
  then show ?thesis
    by (simp add: toc_up_range toc_down_range toc_page_up_range toc_page_down_range
      toc_open_range toc_left_range page_line_up_range page_line_down_range
      page_view_up_range page_view_down_range page_prev_range page_next_range
      page_back_range)
qed

theorem navigation_stays_in_range_witness:
  "1 \<le> WIKI_PAGE_COUNT (sample_rom 3 100)
   \<and> nav_in_range (sample_rom 3 100)
        (run_calls (sample_rom 3 100)
          [CALL_RUN (buttons_down [RETRO_DEVICE_ID_JOYPAD_A]),
           CALL_RUN (buttons_down []),
           CALL_RUN (buttons_down [RETRO_DEVICE_ID_JOYPAD_R]),
           CALL_RUN (buttons_down [RETRO_DEVICE_ID_JOYPAD_LEFT]),
           CALL_RUN (buttons_down [RETRO_DEVICE_ID_JOYPAD_R, RETRO_DEVICE_ID_JOYPAD_LEFT]),
           CALL_RESET]
          (snd (retro_load_game True True power_on)))
   \<and> nav_in_range (sample_rom 3 100) (snd (retro_load_game True True power_on))
   \<and> nav_in_range (sample_rom 3 100)
        (toc_page_down (sample_rom 3 100) (CONTENT_ROWS - 3)
          (snd (retro_load_game True True power_on)))
   \<and> nav_in_range (sample_rom 3 100)
        (page_prev (sample_rom 3 100) (snd (retro_load_game True True power_on)))"
proof -
  have n: "1 \<le> WIKI_PAGE_COUNT (sample_rom 3 100)"
    by (simp add: WIKI_PAGE_COUNT_def sample_rom_def)
  have start: "nav_in_range (sample_rom 3 100) (snd (retro_load_game True True power_on))"
    by (simp add: nav_in_range_def retro_load_game_def WIKI_PAGE_COUNT_def sample_rom_def)
  show ?thesis
    using navigation_stays_in_range [OF n, where ?s0.0 = power_on
        and s = "snd (retro_load_game True True power_on)"] n start
    by blast
qed

section \<open>The handlers frame by frame\<close>

lemmas joypad_ids =
  RETRO_DEVICE_ID_JOYPAD_B_def RETRO_DEVICE_ID_JOYPAD_START_def RETRO_DEVICE_ID_JOYPAD_UP_def
  RETRO_DEVICE_ID_JOYPAD_DOWN_def RETRO_DEVICE_ID_JOYPAD_LEFT_def RETRO_DEVICE_ID_JOYPAD_RIGHT_def
  RETRO_DEVICE_ID_JOYPAD_A_def RETRO_DEVICE_ID_JOYPAD_L_def RETRO_DEVICE_ID_JOYPAD_R_def

lemmas toc_blocks = toc_up_def toc_down_def toc_page_up_def toc_page_down_def toc_open_def toc_left_def

lemmas page_blocks = page_line_up_def page_line_down_def page_view_up_def page_view_down_def
  page_prev_def page_next_def page_back_def

lemma fires_poll_other: "b \<noteq> b' \<Longrightarrow> fires inp b (poll inp b' s) = fires inp b s"
  by (simp add: fires_eq poll_eq)

lemma fires_toc_blocks:
  "fires inp b (toc_up s) = fires inp b s"
  "fires inp b (toc_down D r s) = fires inp b s"
  "fires inp b (toc_page_up r s) = fires inp b s"
  "fires inp b (toc_page_down D r s) = fires inp b s"
  "fires inp b (toc_open s) = fires inp b s"
  "fires inp b (toc_left s) = fires inp b s"
  by (simp_all add: fires_eq toc_blocks Let_def)

lemma fires_page_blocks:
  "fires inp b (page_line_up s) = fires inp b s"
  "fires inp b (page_line_down m s) = fires inp b s"
  "fires inp b (page_view_up s) = fires inp b s"
  "fires inp b (page_view_down m s) = fires inp b s"
  "fires inp b (page_prev D s) = fires inp b s"
  "fires inp b (page_next D s) = fires inp b s"
  "fires inp b (page_back s) = fires inp b s"
  by (simp_all add: fires_eq page_blocks Let_def)

lemma fires_on_press:
  assumes "b \<noteq> b'" and "\<And>u. fires inp b (body u) = fires inp b u"
  shows "fires inp b (on_press inp b' body t) = fires inp b t"
  using assms by (simp add: on_press_eq fires_poll_other)

lemma fires_on_press_either:
  assumes "b \<noteq> b1" and "b \<noteq> b2" and "\<And>u. fires inp b (body u) = fires inp b u"
  shows "fires inp b (on_press_either inp b1 b2 body t) = fires inp b t"
  using assms by (simp add: on_press_either_eq fires_poll_other)


lemma poll_fields:
  "state (poll inp b u) = state u"
  "toc_cursor (poll inp b u) = toc_cursor u"
  "toc_scroll (poll inp b u) = toc_scroll u"
  "current_page (poll inp b u) = current_page u"
  "page_scroll (poll inp b u) = page_scroll u"
  by (simp_all add: poll_eq)

lemma on_press_keeps:
  assumes "\<And>u. f (body u) = f u" and "\<And>u. f (poll inp b u) = f u"
  shows "f (on_press inp b body t) = f t"
  using assms by (simp add: on_press_eq)

lemma on_press_either_keeps:
  assumes "\<And>u. f (body u) = f u" and "\<And>b u. f (poll inp b u) = f u"
  shows "f (on_press_either inp b1 b2 body t) = f t"
  using assms by (simp add: on_press_either_eq)

text \<open>The two handlers as the last poll applied to the state the earlier polls leave.\<close>

lemma handle_toc_input_last:
  "handle_toc_input D inp s =
    on_press inp RETRO_DEVICE_ID_JOYPAD_LEFT toc_left
     (on_press_either inp RETRO_DEVICE_ID_JOYPAD_A RETRO_DEVICE_ID_JOYPAD_RIGHT toc_open
       (on_press inp RETRO_DEVICE_ID_JOYPAD_R (toc_page_down D (CONTENT_ROWS - 3))
         (on_press inp RETRO_DEVICE_ID_JOYPAD_L (toc_page_up (CONTENT_ROWS - 3))
           (on_press inp RETRO_DEVICE_ID_JOYPAD_DOWN (toc_down D (CONTENT_ROWS - 3))
             (on_press inp RETRO_DEVICE_ID_JOYPAD_UP toc_up s)))))"
  unfolding handle_toc_input_def Let_def by (rule refl)

lemma handle_page_input_last:
  "handle_page_input D inp s =
    on_press_either inp RETRO_DEVICE_ID_JOYPAD_B RETRO_DEVICE_ID_JOYPAD_START page_back
     (on_press inp RETRO_DEVICE_ID_JOYPAD_RIGHT (page_next D)
       (on_press inp RETRO_DEVICE_ID_JOYPAD_LEFT (page_prev D)
         (on_press inp RETRO_DEVICE_ID_JOYPAD_R
            (page_view_down (max 0 (line_count (wiki_pages D ! nat (current_page s)) - CONTENT_ROWS)))
           (on_press inp RETRO_DEVICE_ID_JOYPAD_L page_view_up
             (on_press inp RETRO_DEVICE_ID_JOYPAD_DOWN
                (page_line_down (max 0 (line_count (wiki_pages D ! nat (current_page s)) - CONTENT_ROWS)))
               (on_press inp RETRO_DEVICE_ID_JOYPAD_UP page_line_up s))))))"
proof -
  have "(if line_count (wiki_pages D ! nat (current_page s)) - CONTENT_ROWS < 0 then 0
      else line_count (wiki_pages D ! nat (current_page s)) - CONTENT_ROWS)
    = max 0 (line_count (wiki_pages D ! nat (current_page s)) - CONTENT_ROWS)"
    by (simp add: max_def)
  then show ?thesis
    unfolding handle_page_input_def Let_def by (simp only:)
qed

text \<open>The equations that evaluate a frame on concrete data.\<close>

lemmas frame_eval = handle_toc_input_last handle_page_input_last on_press_eq on_press_either_eq
  fires_eq poll_eq spec_press_def int_wrap_def toc_blocks page_blocks Let_def joypad_ids buttons_down_def
  contents_at_def viewing_at_def retro_load_game_def power_on_def WIKI_PAGE_COUNT_def
  sample_rom_def CONTENT_ROWS_def

lemmas run_eval = run_calls_def retro_run_def any_btn_pressed_def any_btn_loop.simps
  BTN_COUNT_def BOOT_FRAMES_def frame_eval

text \<open>
  A frame of a loaded session runs the handler of the current screen and then redraws:
  in Contents and in Viewing the navigation variables after \<open>retro_run\<close> are those the
  handler leaves.
\<close>

lemma retro_run_contents:
  assumes "game_loaded s" and "state s = STATE_TOC"
  shows "fst (retro_run D inp s) =
    (handle_toc_input D inp s)
      \<lparr>framebuffer := render_toc D (toc_cursor (handle_toc_input D inp s))
         (toc_scroll (handle_toc_input D inp s)) (framebuffer (handle_toc_input D inp s))\<rparr>"
  using assms by (simp add: retro_run_def Let_def)

lemma retro_run_viewing:
  assumes "game_loaded s" and "state s = STATE_PAGE"
  shows "fst (retro_run D inp s) =
    (handle_page_input D inp s)
      \<lparr>framebuffer := render_page D (current_page (handle_page_input D inp s))
         (page_scroll (handle_page_input D inp s)) (framebuffer (handle_page_input D inp s))\<rparr>"
  using assms by (simp add: retro_run_def Let_def)

text \<open>
  Claim C5. In the Contents screen a firing Left press leaves the core in the Viewing
  state with the viewer scroll at 0 and the current document equal to the Contents
  cursor; that cursor is the previous one moved back by one step (staying at 0), with the
  scroll offset following it when it leaves the window upwards.
\<close>

theorem contents_left_opens_previous:
  "(fires inp RETRO_DEVICE_ID_JOYPAD_LEFT s \<longrightarrow>
      state (handle_toc_input D inp s) = STATE_PAGE
      \<and> current_page (handle_toc_input D inp s) = toc_cursor (handle_toc_input D inp s)
      \<and> page_scroll (handle_toc_input D inp s) = 0)
   \<and> (fires inp RETRO_DEVICE_ID_JOYPAD_LEFT s
        \<and> \<not> fires inp RETRO_DEVICE_ID_JOYPAD_UP s \<and> \<not> fires inp RETRO_DEVICE_ID_JOYPAD_DOWN s
        \<and> \<not> fires inp RETRO_DEVICE_ID_JOYPAD_L s \<and> \<not> fires inp RETRO_DEVICE_ID_JOYPAD_R s \<longrightarrow>
      toc_cursor (handle_toc_input D inp s)
        = (if toc_cursor s > 0 then toc_cursor s - 1 else toc_cursor s)
      \<and> toc_scroll (handle_toc_input D inp s)
        = (if toc_cursor (handle_toc_input D inp s) < toc_scroll s
           then toc_cursor (handle_toc_input D inp s) else toc_scroll s))
   \<and> toc_cursor (toc_left t) = (if toc_cursor t > 0 then toc_cursor t - 1 else toc_cursor t)
   \<and> toc_scroll (toc_left t)
        = (if toc_cursor (toc_left t) < toc_scroll t then toc_cursor (toc_left t)
           else toc_scroll t)
   \<and> state (toc_left t) = STATE_PAGE
   \<and> current_page (toc_left t) = toc_cursor (toc_left t)
   \<and> page_scroll (toc_left t) = 0"
proof -
  define s4 where "s4 =
    on_press inp RETRO_DEVICE_ID_JOYPAD_R (toc_page_down D (CONTENT_ROWS - 3))
      (on_press inp RETRO_DEVICE_ID_JOYPAD_L (toc_page_up (CONTENT_ROWS - 3))
        (on_press inp RETRO_DEVICE_ID_JOYPAD_DOWN (toc_down D (CONTENT_ROWS - 3))
          (on_press inp RETRO_DEVICE_ID_JOYPAD_UP toc_up s)))"
  define s5 where "s5 =
    on_press_either inp RETRO_DEVICE_ID_JOYPAD_A RETRO_DEVICE_ID_JOYPAD_RIGHT toc_open s4"
  have frame: "handle_toc_input D inp s = on_press inp RETRO_DEVICE_ID_JOYPAD_LEFT toc_left s5"
    by (simp only: handle_toc_input_last s5_def s4_def)
  have left5: "fires inp RETRO_DEVICE_ID_JOYPAD_LEFT s5 = fires inp RETRO_DEVICE_ID_JOYPAD_LEFT s"
    unfolding s5_def s4_def
    by (simp add: fires_on_press fires_on_press_either fires_toc_blocks joypad_ids)
  have block: "toc_cursor (toc_left u) = (if toc_cursor u > 0 then toc_cursor u - 1 else toc_cursor u)
   \<and> toc_scroll (toc_left u)
        = (if toc_cursor (toc_left u) < toc_scroll u then toc_cursor (toc_left u)
           else toc_scroll u)
   \<and> state (toc_left u) = STATE_PAGE
   \<and> current_page (toc_left u) = toc_cursor (toc_left u)
   \<and> page_scroll (toc_left u) = 0" for u
    by (simp add: toc_left_def Let_def)
  have fired: "handle_toc_input D inp s = toc_left (poll inp RETRO_DEVICE_ID_JOYPAD_LEFT s5)"
    if "fires inp RETRO_DEVICE_ID_JOYPAD_LEFT s"
    using that left5 by (simp add: frame on_press_eq)
  have general: "state (handle_toc_input D inp s) = STATE_PAGE
      \<and> current_page (handle_toc_input D inp s) = toc_cursor (handle_toc_input D inp s)
      \<and> page_scroll (handle_toc_input D inp s) = 0"
    if "fires inp RETRO_DEVICE_ID_JOYPAD_LEFT s"
    using block [of "poll inp RETRO_DEVICE_ID_JOYPAD_LEFT s5"] fired [OF that] by simp
  have alone: "toc_cursor (handle_toc_input D inp s)
        = (if toc_cursor s > 0 then toc_cursor s - 1 else toc_cursor s)
      \<and> toc_scroll (handle_toc_input D inp s)
        = (if toc_cursor (handle_toc_input D inp s) < toc_scroll s
           then toc_cursor (handle_toc_input D inp s) else toc_scroll s)"
    if "fires inp RETRO_DEVICE_ID_JOYPAD_LEFT s"
      "\<not> fires inp RETRO_DEVICE_ID_JOYPAD_UP s" "\<not> fires inp RETRO_DEVICE_ID_JOYPAD_DOWN s"
      "\<not> fires inp RETRO_DEVICE_ID_JOYPAD_L s" "\<not> fires inp RETRO_DEVICE_ID_JOYPAD_R s"
  proof -
    have "toc_cursor s4 = toc_cursor s \<and> toc_scroll s4 = toc_scroll s"
      using that unfolding s4_def
      by (simp add: on_press_eq fires_poll_other poll_fields joypad_ids)
    moreover have "toc_cursor s5 = toc_cursor s4 \<and> toc_scroll s5 = toc_scroll s4"
      unfolding s5_def
      by (simp add: on_press_either_keeps [where f = toc_cursor]
            on_press_either_keeps [where f = toc_scroll] poll_fields toc_open_def)
    ultimately show ?thesis
      using block [of "poll inp RETRO_DEVICE_ID_JOYPAD_LEFT s5"] fired [OF that(1)]
      by (simp add: poll_fields)
  qed
  from general alone block [of t] show ?thesis by blast
qed


theorem contents_left_opens_previous_witness:
  "fires (buttons_down [RETRO_DEVICE_ID_JOYPAD_LEFT]) RETRO_DEVICE_ID_JOYPAD_LEFT (contents_at 8 8)
   \<and> state (handle_toc_input (sample_rom 30 100) (buttons_down [RETRO_DEVICE_ID_JOYPAD_LEFT])
        (contents_at 8 8)) = STATE_PAGE
   \<and> current_page (handle_toc_input (sample_rom 30 100) (buttons_down [RETRO_DEVICE_ID_JOYPAD_LEFT])
        (contents_at 8 8)) = 7
   \<and> page_scroll (handle_toc_input (sample_rom 30 100) (buttons_down [RETRO_DEVICE_ID_JOYPAD_LEFT])
        (contents_at 8 8)) = 0
   \<and> toc_cursor (handle_toc_input (sample_rom 30 100) (buttons_down [RETRO_DEVICE_ID_JOYPAD_LEFT])
        (contents_at 8 8)) = 7
   \<and> toc_scroll (handle_toc_input (sample_rom 30 100) (buttons_down [RETRO_DEVICE_ID_JOYPAD_LEFT])
        (contents_at 8 8)) = 7"
proof -
  let ?inp = "buttons_down [RETRO_DEVICE_ID_JOYPAD_LEFT]"
  let ?s = "contents_at 8 8"
  have pressed: "fires ?inp RETRO_DEVICE_ID_JOYPAD_LEFT ?s"
    "\<not> fires ?inp RETRO_DEVICE_ID_JOYPAD_UP ?s" "\<not> fires ?inp RETRO_DEVICE_ID_JOYPAD_DOWN ?s"
    "\<not> fires ?inp RETRO_DEVICE_ID_JOYPAD_L ?s" "\<not> fires ?inp RETRO_DEVICE_ID_JOYPAD_R ?s"
    by (simp_all add: fires_eq buttons_down_def contents_at_def retro_load_game_def
        spec_press_def int_wrap_def joypad_ids)
  have start: "toc_cursor ?s = 8" "toc_scroll ?s = 8"
    by (simp_all add: contents_at_def)
  show ?thesis
    using contents_left_opens_previous [of ?inp ?s "sample_rom 30 100" ?s] pressed start
    by simp
qed

text \<open>
  Claim C6, as the code has it. In the Contents screen a firing Accept (A) or Right press
  always leaves the core in the Viewing state with the viewer scroll at 0 and the current
  document equal to the Contents cursor at the end of the frame. When Left does not fire
  in the same frame, that is the cursor at the time of the press: the value the cursor has
  after the Up, Down, L and R handlers of the frame, and the cursor the frame started with
  when none of those fires either. When Left fires in the same frame, its handler runs
  after the open and the current document is that cursor moved back by one step.
\<close>

theorem contents_accept_opens_cursor:
  "(fires inp RETRO_DEVICE_ID_JOYPAD_A s \<or> fires inp RETRO_DEVICE_ID_JOYPAD_RIGHT s \<longrightarrow>
      state (handle_toc_input D inp s) = STATE_PAGE
      \<and> page_scroll (handle_toc_input D inp s) = 0
      \<and> current_page (handle_toc_input D inp s) = toc_cursor (handle_toc_input D inp s))
   \<and> ((fires inp RETRO_DEVICE_ID_JOYPAD_A s \<or> fires inp RETRO_DEVICE_ID_JOYPAD_RIGHT s)
        \<and> \<not> fires inp RETRO_DEVICE_ID_JOYPAD_LEFT s \<longrightarrow>
      current_page (handle_toc_input D inp s) = toc_cursor (toc_cursor_moves D inp s)
      \<and> toc_cursor (handle_toc_input D inp s) = toc_cursor (toc_cursor_moves D inp s)
      \<and> toc_scroll (handle_toc_input D inp s) = toc_scroll (toc_cursor_moves D inp s))
   \<and> ((fires inp RETRO_DEVICE_ID_JOYPAD_A s \<or> fires inp RETRO_DEVICE_ID_JOYPAD_RIGHT s)
        \<and> fires inp RETRO_DEVICE_ID_JOYPAD_LEFT s \<longrightarrow>
      current_page (handle_toc_input D inp s)
        = (if toc_cursor (toc_cursor_moves D inp s) > 0
           then toc_cursor (toc_cursor_moves D inp s) - 1
           else toc_cursor (toc_cursor_moves D inp s)))
   \<and> (\<not> fires inp RETRO_DEVICE_ID_JOYPAD_UP s \<and> \<not> fires inp RETRO_DEVICE_ID_JOYPAD_DOWN s
        \<and> \<not> fires inp RETRO_DEVICE_ID_JOYPAD_L s \<and> \<not> fires inp RETRO_DEVICE_ID_JOYPAD_R s \<longrightarrow>
      toc_cursor (toc_cursor_moves D inp s) = toc_cursor s
      \<and> toc_scroll (toc_cursor_moves D inp s) = toc_scroll s)
   \<and> ((fires inp RETRO_DEVICE_ID_JOYPAD_A s \<or> fires inp RETRO_DEVICE_ID_JOYPAD_RIGHT s)
        \<and> \<not> fires inp RETRO_DEVICE_ID_JOYPAD_UP s \<and> \<not> fires inp RETRO_DEVICE_ID_JOYPAD_DOWN s
        \<and> \<not> fires inp RETRO_DEVICE_ID_JOYPAD_L s \<and> \<not> fires inp RETRO_DEVICE_ID_JOYPAD_R s
        \<and> \<not> fires inp RETRO_DEVICE_ID_JOYPAD_LEFT s \<longrightarrow>
      current_page (handle_toc_input D inp s) = toc_cursor s
      \<and> toc_cursor (handle_toc_input D inp s) = toc_cursor s
      \<and> toc_scroll (handle_toc_input D inp s) = toc_scroll s)
   \<and> state (toc_open t) = STATE_PAGE
   \<and> page_scroll (toc_open t) = 0
   \<and> current_page (toc_open t) = toc_cursor t
   \<and> toc_cursor (toc_open t) = toc_cursor t
   \<and> toc_scroll (toc_open t) = toc_scroll t"
proof -
  define s4 where "s4 = toc_cursor_moves D inp s"
  define s5 where "s5 =
    on_press_either inp RETRO_DEVICE_ID_JOYPAD_A RETRO_DEVICE_ID_JOYPAD_RIGHT toc_open s4"
  have s4_eq: "s4 =
    on_press inp RETRO_DEVICE_ID_JOYPAD_R (toc_page_down D (CONTENT_ROWS - 3))
      (on_press inp RETRO_DEVICE_ID_JOYPAD_L (toc_page_up (CONTENT_ROWS - 3))
        (on_press inp RETRO_DEVICE_ID_JOYPAD_DOWN (toc_down D (CONTENT_ROWS - 3))
          (on_press inp RETRO_DEVICE_ID_JOYPAD_UP toc_up s)))"
    unfolding s4_def toc_cursor_moves_def Let_def by (rule refl)
  have frame: "handle_toc_input D inp s = on_press inp RETRO_DEVICE_ID_JOYPAD_LEFT toc_left s5"
    by (simp only: handle_toc_input_last s5_def s4_eq)
  have a4: "fires inp RETRO_DEVICE_ID_JOYPAD_A s4 = fires inp RETRO_DEVICE_ID_JOYPAD_A s"
    and r4: "fires inp RETRO_DEVICE_ID_JOYPAD_RIGHT (poll inp RETRO_DEVICE_ID_JOYPAD_A s4)
      = fires inp RETRO_DEVICE_ID_JOYPAD_RIGHT s"
    and left5: "fires inp RETRO_DEVICE_ID_JOYPAD_LEFT s5 = fires inp RETRO_DEVICE_ID_JOYPAD_LEFT s"
    unfolding s5_def s4_eq
    by (simp_all add: fires_on_press fires_on_press_either fires_poll_other fires_toc_blocks
        joypad_ids)
  have block: "state (toc_open u) = STATE_PAGE
   \<and> page_scroll (toc_open u) = 0
   \<and> current_page (toc_open u) = toc_cursor u
   \<and> toc_cursor (toc_open u) = toc_cursor u
   \<and> toc_scroll (toc_open u) = toc_scroll u" for u
    by (simp add: toc_open_def)
  have opened: "state s5 = STATE_PAGE \<and> page_scroll s5 = 0 \<and> current_page s5 = toc_cursor s4
      \<and> toc_cursor s5 = toc_cursor s4 \<and> toc_scroll s5 = toc_scroll s4"
    if "fires inp RETRO_DEVICE_ID_JOYPAD_A s \<or> fires inp RETRO_DEVICE_ID_JOYPAD_RIGHT s"
    using that a4 r4 unfolding s5_def
    by (auto simp add: on_press_either_eq toc_open_def poll_fields)
  have general: "state (handle_toc_input D inp s) = STATE_PAGE
      \<and> page_scroll (handle_toc_input D inp s) = 0
      \<and> current_page (handle_toc_input D inp s) = toc_cursor (handle_toc_input D inp s)"
    if "fires inp RETRO_DEVICE_ID_JOYPAD_A s \<or> fires inp RETRO_DEVICE_ID_JOYPAD_RIGHT s"
    using opened [OF that]
    by (simp add: frame on_press_eq poll_fields toc_left_def Let_def)
  have no_left: "current_page (handle_toc_input D inp s) = toc_cursor s4
      \<and> toc_cursor (handle_toc_input D inp s) = toc_cursor s4
      \<and> toc_scroll (handle_toc_input D inp s) = toc_scroll s4"
    if "fires inp RETRO_DEVICE_ID_JOYPAD_A s \<or> fires inp RETRO_DEVICE_ID_JOYPAD_RIGHT s"
      "\<not> fires inp RETRO_DEVICE_ID_JOYPAD_LEFT s"
    using opened [OF that(1)] that(2) left5
    by (simp add: frame on_press_eq poll_fields)
  have with_left: "current_page (handle_toc_input D inp s)
        = (if toc_cursor s4 > 0 then toc_cursor s4 - 1 else toc_cursor s4)"
    if "fires inp RETRO_DEVICE_ID_JOYPAD_A s \<or> fires inp RETRO_DEVICE_ID_JOYPAD_RIGHT s"
      "fires inp RETRO_DEVICE_ID_JOYPAD_LEFT s"
    using opened [OF that(1)] that(2) left5
    by (simp add: frame on_press_eq poll_fields toc_left_def Let_def)
  have still: "toc_cursor s4 = toc_cursor s \<and> toc_scroll s4 = toc_scroll s"
    if "\<not> fires inp RETRO_DEVICE_ID_JOYPAD_UP s" "\<not> fires inp RETRO_DEVICE_ID_JOYPAD_DOWN s"
      "\<not> fires inp RETRO_DEVICE_ID_JOYPAD_L s" "\<not> fires inp RETRO_DEVICE_ID_JOYPAD_R s"
    using that unfolding s4_eq
    by (simp add: on_press_eq fires_poll_other poll_fields joypad_ids)
  have alone: "current_page (handle_toc_input D inp s) = toc_cursor s
      \<and> toc_cursor (handle_toc_input D inp s) = toc_cursor s
      \<and> toc_scroll (handle_toc_input D inp s) = toc_scroll s"
    if "fires inp RETRO_DEVICE_ID_JOYPAD_A s \<or> fires inp RETRO_DEVICE_ID_JOYPAD_RIGHT s"
      "\<not> fires inp RETRO_DEVICE_ID_JOYPAD_UP s" "\<not> fires inp RETRO_DEVICE_ID_JOYPAD_DOWN s"
      "\<not> fires inp RETRO_DEVICE_ID_JOYPAD_L s" "\<not> fires inp RETRO_DEVICE_ID_JOYPAD_R s"
      "\<not> fires inp RETRO_DEVICE_ID_JOYPAD_LEFT s"
    using no_left [OF that(1) that(6)] still [OF that(2-5)] by simp
  from general no_left with_left still alone block [of t] show ?thesis
    unfolding s4_def by blast
qed

theorem contents_accept_opens_cursor_witness:
  "fires (buttons_down [RETRO_DEVICE_ID_JOYPAD_A]) RETRO_DEVICE_ID_JOYPAD_A (contents_at 2 0)
   \<and> state (handle_toc_input (sample_rom 3 100) (buttons_down [RETRO_DEVICE_ID_JOYPAD_A])
        (contents_at 2 0)) = STATE_PAGE
   \<and> page_scroll (handle_toc_input (sample_rom 3 100) (buttons_down [RETRO_DEVICE_ID_JOYPAD_A])
        (contents_at 2 0)) = 0
   \<and> current_page (handle_toc_input (sample_rom 3 100) (buttons_down [RETRO_DEVICE_ID_JOYPAD_A])
        (contents_at 2 0)) = 2
   \<and> toc_cursor (handle_toc_input (sample_rom 3 100) (buttons_down [RETRO_DEVICE_ID_JOYPAD_A])
        (contents_at 2 0)) = 2
   \<and> fires (buttons_down [RETRO_DEVICE_ID_JOYPAD_A, RETRO_DEVICE_ID_JOYPAD_LEFT])
        RETRO_DEVICE_ID_JOYPAD_A (contents_at 5 0)
   \<and> fires (buttons_down [RETRO_DEVICE_ID_JOYPAD_A, RETRO_DEVICE_ID_JOYPAD_LEFT])
        RETRO_DEVICE_ID_JOYPAD_LEFT (contents_at 5 0)
   \<and> state (handle_toc_input (sample_rom 30 100)
        (buttons_down [RETRO_DEVICE_ID_JOYPAD_A, RETRO_DEVICE_ID_JOYPAD_LEFT])
        (contents_at 5 0)) = STATE_PAGE
   \<and> current_page (handle_toc_input (sample_rom 30 100)
        (buttons_down [RETRO_DEVICE_ID_JOYPAD_A, RETRO_DEVICE_ID_JOYPAD_LEFT])
        (contents_at 5 0)) = 4"
proof -
  let ?inp = "buttons_down [RETRO_DEVICE_ID_JOYPAD_A]"
  let ?s = "contents_at 2 0"
  let ?both = "buttons_down [RETRO_DEVICE_ID_JOYPAD_A, RETRO_DEVICE_ID_JOYPAD_LEFT]"
  let ?u = "contents_at 5 0"
  have pressed: "fires ?inp RETRO_DEVICE_ID_JOYPAD_A ?s"
    "\<not> fires ?inp RETRO_DEVICE_ID_JOYPAD_UP ?s" "\<not> fires ?inp RETRO_DEVICE_ID_JOYPAD_DOWN ?s"
    "\<not> fires ?inp RETRO_DEVICE_ID_JOYPAD_L ?s" "\<not> fires ?inp RETRO_DEVICE_ID_JOYPAD_R ?s"
    "\<not> fires ?inp RETRO_DEVICE_ID_JOYPAD_LEFT ?s"
    by (simp_all add: fires_eq buttons_down_def contents_at_def retro_load_game_def
        spec_press_def int_wrap_def joypad_ids)
  have pressed_both: "fires ?both RETRO_DEVICE_ID_JOYPAD_A ?u"
    "fires ?both RETRO_DEVICE_ID_JOYPAD_LEFT ?u"
    "\<not> fires ?both RETRO_DEVICE_ID_JOYPAD_UP ?u" "\<not> fires ?both RETRO_DEVICE_ID_JOYPAD_DOWN ?u"
    "\<not> fires ?both RETRO_DEVICE_ID_JOYPAD_L ?u" "\<not> fires ?both RETRO_DEVICE_ID_JOYPAD_R ?u"
    by (simp_all add: fires_eq buttons_down_def contents_at_def retro_load_game_def
        spec_press_def int_wrap_def joypad_ids)
  have start: "toc_cursor ?s = 2" "toc_scroll ?s = 0" "toc_cursor ?u = 5" "toc_scroll ?u = 0"
    by (simp_all add: contents_at_def)
  have alone: "state (handle_toc_input (sample_rom 3 100) ?inp ?s) = STATE_PAGE
      \<and> page_scroll (handle_toc_input (sample_rom 3 100) ?inp ?s) = 0
      \<and> current_page (handle_toc_input (sample_rom 3 100) ?inp ?s) = 2
      \<and> toc_cursor (handle_toc_input (sample_rom 3 100) ?inp ?s) = 2"
    using contents_accept_opens_cursor [of ?inp ?s "sample_rom 3 100" ?s] pressed start
    by simp
  have moved: "toc_cursor (toc_cursor_moves (sample_rom 30 100) ?both ?u) = 5"
    using contents_accept_opens_cursor [of ?both ?u "sample_rom 30 100" ?u] pressed_both start
    by simp
  have both: "state (handle_toc_input (sample_rom 30 100) ?both ?u) = STATE_PAGE
      \<and> current_page (handle_toc_input (sample_rom 30 100) ?both ?u) = 4"
    using contents_accept_opens_cursor [of ?both ?u "sample_rom 30 100" ?u] pressed_both moved
    by simp
  show ?thesis
    using alone both pressed(1) pressed_both(1,2) by simp
qed

text \<open>
  The claim as stated fails when Left fires in the same frame. In a catalog of 30
  documents: load, skip the boot screen with Start, release, press Down, release, then
  press A and Left together. The press finds the cursor at 1, and the frame ends in the
  Viewing state on document 0.
\<close>

theorem contents_accept_with_left_opens_previous:
  "state (run_calls (sample_rom 30 100)
      [CALL_RUN (buttons_down [RETRO_DEVICE_ID_JOYPAD_START]),
       CALL_RUN (buttons_down []),
       CALL_RUN (buttons_down [RETRO_DEVICE_ID_JOYPAD_DOWN]),
       CALL_RUN (buttons_down [])]
      (snd (retro_load_game True True power_on))) = STATE_TOC
   \<and> toc_cursor (run_calls (sample_rom 30 100)
      [CALL_RUN (buttons_down [RETRO_DEVICE_ID_JOYPAD_START]),
       CALL_RUN (buttons_down []),
       CALL_RUN (buttons_down [RETRO_DEVICE_ID_JOYPAD_DOWN]),
       CALL_RUN (buttons_down [])]
      (snd (retro_load_game True True power_on))) = 1
   \<and> fires (buttons_down [RETRO_DEVICE_ID_JOYPAD_A, RETRO_DEVICE_ID_JOYPAD_LEFT])
      RETRO_DEVICE_ID_JOYPAD_A
      (run_calls (sample_rom 30 100)
        [CALL_RUN (buttons_down [RETRO_DEVICE_ID_JOYPAD_START]),
         CALL_RUN (buttons_down []),
         CALL_RUN (buttons_down [RETRO_DEVICE_ID_JOYPAD_DOWN]),
         CALL_RUN (buttons_down [])]
        (snd (retro_load_game True True power_on)))
   \<and> state (run_calls (sample_rom 30 100)
      [CALL_RUN (buttons_down [RETRO_DEVICE_ID_JOYPAD_START]),
       CALL_RUN (buttons_down []),
       CALL_RUN (buttons_down [RETRO_DEVICE_ID_JOYPAD_DOWN]),
       CALL_RUN (buttons_down []),
       CALL_RUN (buttons_down [RETRO_DEVICE_ID_JOYPAD_A, RETRO_DEVICE_ID_JOYPAD_LEFT])]
      (snd (retro_load_game True True power_on))) = STATE_PAGE
   \<and> page_scroll (run_calls (sample_rom 30 100)
      [CALL_RUN (buttons_down [RETRO_DEVICE_ID_JOYPAD_START]),
       CALL_RUN (buttons_down []),
       CALL_RUN (buttons_down [RETRO_DEVICE_ID_JOYPAD_DOWN]),
       CALL_RUN (buttons_down []),
       CALL_RUN (buttons_down [RETRO_DEVICE_ID_JOYPAD_A, RETRO_DEVICE_ID_JOYPAD_LEFT])]
      (snd (retro_load_game True True power_on))) = 0
   \<and> current_page (run_calls (sample_rom 30 100)
      [CALL_RUN (buttons_down [RETRO_DEVICE_ID_JOYPAD_START]),
       CALL_RUN (buttons_down []),
       CALL_RUN (buttons_down [RETRO_DEVICE_ID_JOYPAD_DOWN]),
       CALL_RUN (buttons_down []),
       CALL_RUN (buttons_down [RETRO_DEVICE_ID_JOYPAD_A, RETRO_DEVICE_ID_JOYPAD_LEFT])]
      (snd (retro_load_game True True power_on))) = 0"
  by (simp add: run_eval)

text \<open>
  Claim C3, as the code has it. In the Contents screen a firing page-up press (L) moves
  the cursor back by a full page of \<open>CONTENT_ROWS - 3\<close> rows, stopping at 0, and sets the
  scroll offset to the new cursor. A firing page-down press (R) moves the cursor forward
  by a full page, stopping at \<open>N - 1\<close>, and moves the scroll offset only when the cursor
  has left the window, to \<open>cursor - (CONTENT_ROWS - 3) + 1\<close>: the follow rule of a single
  step down. Cursor and offset that were in range stay in range.
\<close>

theorem contents_page_step:
  "(fires inp RETRO_DEVICE_ID_JOYPAD_L s
      \<and> \<not> fires inp RETRO_DEVICE_ID_JOYPAD_UP s \<and> \<not> fires inp RETRO_DEVICE_ID_JOYPAD_DOWN s
      \<and> \<not> fires inp RETRO_DEVICE_ID_JOYPAD_R s \<and> \<not> fires inp RETRO_DEVICE_ID_JOYPAD_LEFT s \<longrightarrow>
      toc_cursor (handle_toc_input D inp s) = max 0 (toc_cursor s - (CONTENT_ROWS - 3))
      \<and> toc_scroll (handle_toc_input D inp s) = toc_cursor (handle_toc_input D inp s))
   \<and> (fires inp RETRO_DEVICE_ID_JOYPAD_R s
      \<and> \<not> fires inp RETRO_DEVICE_ID_JOYPAD_UP s \<and> \<not> fires inp RETRO_DEVICE_ID_JOYPAD_DOWN s
      \<and> \<not> fires inp RETRO_DEVICE_ID_JOYPAD_L s \<and> \<not> fires inp RETRO_DEVICE_ID_JOYPAD_LEFT s \<longrightarrow>
      toc_cursor (handle_toc_input D inp s)
        = (if toc_cursor s + (CONTENT_ROWS - 3) \<ge> WIKI_PAGE_COUNT D then WIKI_PAGE_COUNT D - 1
           else toc_cursor s + (CONTENT_ROWS - 3))
      \<and> toc_scroll (handle_toc_input D inp s)
        = (if toc_cursor (handle_toc_input D inp s) \<ge> toc_scroll s + (CONTENT_ROWS - 3)
           then toc_cursor (handle_toc_input D inp s) - (CONTENT_ROWS - 3) + 1
           else toc_scroll s))
   \<and> (nav_in_range D s \<longrightarrow> nav_in_range D (handle_toc_input D inp s))
   \<and> toc_cursor (toc_page_up r t) = max 0 (toc_cursor t - r)
   \<and> toc_scroll (toc_page_up r t) = toc_cursor (toc_page_up r t)
   \<and> toc_cursor (toc_page_down D r t)
        = (if toc_cursor t + r \<ge> WIKI_PAGE_COUNT D then WIKI_PAGE_COUNT D - 1
           else toc_cursor t + r)
   \<and> toc_scroll (toc_page_down D r t)
        = (if toc_cursor (toc_page_down D r t) \<ge> toc_scroll t + r
           then toc_cursor (toc_page_down D r t) - r + 1 else toc_scroll t)"
proof -
  define s2 where "s2 =
    on_press inp RETRO_DEVICE_ID_JOYPAD_DOWN (toc_down D (CONTENT_ROWS - 3))
      (on_press inp RETRO_DEVICE_ID_JOYPAD_UP toc_up s)"
  define s4 where "s4 =
    on_press inp RETRO_DEVICE_ID_JOYPAD_R (toc_page_down D (CONTENT_ROWS - 3))
      (on_press inp RETRO_DEVICE_ID_JOYPAD_L (toc_page_up (CONTENT_ROWS - 3)) s2)"
  define s5 where "s5 =
    on_press_either inp RETRO_DEVICE_ID_JOYPAD_A RETRO_DEVICE_ID_JOYPAD_RIGHT toc_open s4"
  have frame: "handle_toc_input D inp s = on_press inp RETRO_DEVICE_ID_JOYPAD_LEFT toc_left s5"
    by (simp only: handle_toc_input_last s5_def s4_def s2_def)
  have left5: "fires inp RETRO_DEVICE_ID_JOYPAD_LEFT s5 = fires inp RETRO_DEVICE_ID_JOYPAD_LEFT s"
    unfolding s5_def s4_def s2_def
    by (simp add: fires_on_press fires_on_press_either fires_toc_blocks joypad_ids)
  have l2: "fires inp RETRO_DEVICE_ID_JOYPAD_L s2 = fires inp RETRO_DEVICE_ID_JOYPAD_L s"
    and r2: "fires inp RETRO_DEVICE_ID_JOYPAD_R s2 = fires inp RETRO_DEVICE_ID_JOYPAD_R s"
    unfolding s2_def
    by (simp_all add: fires_on_press fires_toc_blocks joypad_ids)
  have s5_keeps: "toc_cursor s5 = toc_cursor s4 \<and> toc_scroll s5 = toc_scroll s4"
    unfolding s5_def
    by (simp add: on_press_either_keeps [where f = toc_cursor]
          on_press_either_keeps [where f = toc_scroll] poll_fields toc_open_def)
  have last: "toc_cursor (handle_toc_input D inp s) = toc_cursor s4
      \<and> toc_scroll (handle_toc_input D inp s) = toc_scroll s4"
    if "\<not> fires inp RETRO_DEVICE_ID_JOYPAD_LEFT s"
    using that left5 s5_keeps by (simp add: frame on_press_eq poll_fields)
  have first: "toc_cursor s2 = toc_cursor s \<and> toc_scroll s2 = toc_scroll s"
    if "\<not> fires inp RETRO_DEVICE_ID_JOYPAD_UP s" "\<not> fires inp RETRO_DEVICE_ID_JOYPAD_DOWN s"
    using that unfolding s2_def
    by (simp add: on_press_eq fires_poll_other poll_fields joypad_ids)
  have block: "toc_cursor (toc_page_up r u) = max 0 (toc_cursor u - r)
   \<and> toc_scroll (toc_page_up r u) = toc_cursor (toc_page_up r u)
   \<and> toc_cursor (toc_page_down D r u)
        = (if toc_cursor u + r \<ge> WIKI_PAGE_COUNT D then WIKI_PAGE_COUNT D - 1
           else toc_cursor u + r)
   \<and> toc_scroll (toc_page_down D r u)
        = (if toc_cursor (toc_page_down D r u) \<ge> toc_scroll u + r
           then toc_cursor (toc_page_down D r u) - r + 1 else toc_scroll u)" for r u
    by (simp add: toc_page_up_def toc_page_down_def Let_def max_def)
  have page_up: "toc_cursor (handle_toc_input D inp s) = max 0 (toc_cursor s - (CONTENT_ROWS - 3))
      \<and> toc_scroll (handle_toc_input D inp s) = toc_cursor (handle_toc_input D inp s)"
    if "fires inp RETRO_DEVICE_ID_JOYPAD_L s"
      "\<not> fires inp RETRO_DEVICE_ID_JOYPAD_UP s" "\<not> fires inp RETRO_DEVICE_ID_JOYPAD_DOWN s"
      "\<not> fires inp RETRO_DEVICE_ID_JOYPAD_R s" "\<not> fires inp RETRO_DEVICE_ID_JOYPAD_LEFT s"
  proof -
    have "s4 = poll inp RETRO_DEVICE_ID_JOYPAD_R
        (toc_page_up (CONTENT_ROWS - 3) (poll inp RETRO_DEVICE_ID_JOYPAD_L s2))"
      using that(1,4) l2 r2 unfolding s4_def
      by (simp add: on_press_eq fires_poll_other fires_toc_blocks joypad_ids)
    then show ?thesis
      using last [OF that(5)] first [OF that(2,3)]
        block [of "CONTENT_ROWS - 3" "poll inp RETRO_DEVICE_ID_JOYPAD_L s2"]
      by (simp add: poll_fields)
  qed
  have page_down: "toc_cursor (handle_toc_input D inp s)
        = (if toc_cursor s + (CONTENT_ROWS - 3) \<ge> WIKI_PAGE_COUNT D then WIKI_PAGE_COUNT D - 1
           else toc_cursor s + (CONTENT_ROWS - 3))
      \<and> toc_scroll (handle_toc_input D inp s)
        = (if toc_cursor (handle_toc_input D inp s) \<ge> toc_scroll s + (CONTENT_ROWS - 3)
           then toc_cursor (handle_toc_input D inp s) - (CONTENT_ROWS - 3) + 1
           else toc_scroll s)"
    if "fires inp RETRO_DEVICE_ID_JOYPAD_R s"
      "\<not> fires inp RETRO_DEVICE_ID_JOYPAD_UP s" "\<not> fires inp RETRO_DEVICE_ID_JOYPAD_DOWN s"
      "\<not> fires inp RETRO_DEVICE_ID_JOYPAD_L s" "\<not> fires inp RETRO_DEVICE_ID_JOYPAD_LEFT s"
  proof -
    have "s4 = toc_page_down D (CONTENT_ROWS - 3)
        (poll inp RETRO_DEVICE_ID_JOYPAD_R (poll inp RETRO_DEVICE_ID_JOYPAD_L s2))"
      using that(1,4) l2 r2 unfolding s4_def
      by (simp add: on_press_eq fires_poll_other fires_toc_blocks joypad_ids)
    then show ?thesis
      using last [OF that(5)] first [OF that(2,3)]
        block [of "CONTENT_ROWS - 3"
          "poll inp RETRO_DEVICE_ID_JOYPAD_R (poll inp RETRO_DEVICE_ID_JOYPAD_L s2)"]
      by (simp add: poll_fields)
  qed
  have range: "nav_in_range D (handle_toc_input D inp s)" if "nav_in_range D s"
    using that by (rule handle_toc_input_range)
  from page_up page_down range block [of r t] show ?thesis by blast
qed


theorem contents_page_step_witness:
  "fires (buttons_down [RETRO_DEVICE_ID_JOYPAD_L]) RETRO_DEVICE_ID_JOYPAD_L (contents_at 29 8)
   \<and> toc_cursor (handle_toc_input (sample_rom 30 100) (buttons_down [RETRO_DEVICE_ID_JOYPAD_L])
        (contents_at 29 8)) = 7
   \<and> toc_scroll (handle_toc_input (sample_rom 30 100) (buttons_down [RETRO_DEVICE_ID_JOYPAD_L])
        (contents_at 29 8)) = 7
   \<and> fires (buttons_down [RETRO_DEVICE_ID_JOYPAD_R]) RETRO_DEVICE_ID_JOYPAD_R (contents_at 0 0)
   \<and> toc_cursor (handle_toc_input (sample_rom 30 100) (buttons_down [RETRO_DEVICE_ID_JOYPAD_R])
        (contents_at 0 0)) = 22
   \<and> toc_scroll (handle_toc_input (sample_rom 30 100) (buttons_down [RETRO_DEVICE_ID_JOYPAD_R])
        (contents_at 0 0)) = 1
   \<and> nav_in_range (sample_rom 30 100) (contents_at 0 0)
   \<and> nav_in_range (sample_rom 30 100)
        (handle_toc_input (sample_rom 30 100) (buttons_down [RETRO_DEVICE_ID_JOYPAD_R])
          (contents_at 0 0))"
proof -
  let ?up = "buttons_down [RETRO_DEVICE_ID_JOYPAD_L]"
  let ?dn = "buttons_down [RETRO_DEVICE_ID_JOYPAD_R]"
  have pressed_up: "fires ?up RETRO_DEVICE_ID_JOYPAD_L (contents_at 29 8)"
    "\<not> fires ?up RETRO_DEVICE_ID_JOYPAD_UP (contents_at 29 8)"
    "\<not> fires ?up RETRO_DEVICE_ID_JOYPAD_DOWN (contents_at 29 8)"
    "\<not> fires ?up RETRO_DEVICE_ID_JOYPAD_R (contents_at 29 8)"
    "\<not> fires ?up RETRO_DEVICE_ID_JOYPAD_LEFT (contents_at 29 8)"
    by (simp_all add: fires_eq buttons_down_def contents_at_def retro_load_game_def
        spec_press_def int_wrap_def joypad_ids)
  have pressed_dn: "fires ?dn RETRO_DEVICE_ID_JOYPAD_R (contents_at 0 0)"
    "\<not> fires ?dn RETRO_DEVICE_ID_JOYPAD_UP (contents_at 0 0)"
    "\<not> fires ?dn RETRO_DEVICE_ID_JOYPAD_DOWN (contents_at 0 0)"
    "\<not> fires ?dn RETRO_DEVICE_ID_JOYPAD_L (contents_at 0 0)"
    "\<not> fires ?dn RETRO_DEVICE_ID_JOYPAD_LEFT (contents_at 0 0)"
    by (simp_all add: fires_eq buttons_down_def contents_at_def retro_load_game_def
        spec_press_def int_wrap_def joypad_ids)
  have start: "toc_cursor (contents_at 29 8) = 29" "toc_scroll (contents_at 29 8) = 8"
    "toc_cursor (contents_at 0 0) = 0" "toc_scroll (contents_at 0 0) = 0"
    "WIKI_PAGE_COUNT (sample_rom 30 100) = 30" "CONTENT_ROWS - 3 = 22"
    "nav_in_range (sample_rom 30 100) (contents_at 0 0)"
    by (simp_all add: contents_at_def WIKI_PAGE_COUNT_def sample_rom_def CONTENT_ROWS_def
        nav_in_range_def retro_load_game_def)
  show ?thesis
    using contents_page_step [of ?up "contents_at 29 8" "sample_rom 30 100" 22 "contents_at 0 0"]
      contents_page_step [of ?dn "contents_at 0 0" "sample_rom 30 100" 22 "contents_at 0 0"]
      pressed_up pressed_dn start
    by simp
qed

text \<open>
  The claim as stated fails for page-down. In a catalog of 100 documents: load, skip the
  boot screen with Start, release, then press R. The cursor moves from 0 to row 22 and
  the scroll offset becomes 1, not 22, although 22 is within the offset bound of 78.
\<close>

theorem contents_page_down_does_not_snap:
  "state (run_calls (sample_rom 100 30)
      [CALL_RUN (buttons_down [RETRO_DEVICE_ID_JOYPAD_START]),
       CALL_RUN (buttons_down []),
       CALL_RUN (buttons_down [RETRO_DEVICE_ID_JOYPAD_R])]
      (snd (retro_load_game True True power_on))) = STATE_TOC
   \<and> toc_cursor (run_calls (sample_rom 100 30)
      [CALL_RUN (buttons_down [RETRO_DEVICE_ID_JOYPAD_START]),
       CALL_RUN (buttons_down []),
       CALL_RUN (buttons_down [RETRO_DEVICE_ID_JOYPAD_R])]
      (snd (retro_load_game True True power_on))) = 22
   \<and> toc_scroll (run_calls (sample_rom 100 30)
      [CALL_RUN (buttons_down [RETRO_DEVICE_ID_JOYPAD_START]),
       CALL_RUN (buttons_down []),
       CALL_RUN (buttons_down [RETRO_DEVICE_ID_JOYPAD_R])]
      (snd (retro_load_game True True power_on))) = 1
   \<and> max 0 (WIKI_PAGE_COUNT (sample_rom 100 30) - (CONTENT_ROWS - 3)) = 78"
  by (simp add: run_eval)

text \<open>
  Claim C4, as the code has it. In the Viewing screen a firing Back press (B, or Start
  when B does not fire) leaves the core in the Contents state with the Contents cursor
  equal to the current document index. The Contents scroll offset is not set to the
  cursor; it is adjusted by the follow rule of a single-step move, applied once to the new
  cursor: it becomes the cursor when the cursor is above the window, it becomes
  \<open>cursor - (CONTENT_ROWS - 3) + 1\<close> when the cursor is below the window, and it is left
  alone when the cursor is already inside the window. Afterwards the cursor is inside the
  visible window of \<open>CONTENT_ROWS - 3\<close> rows.
\<close>

theorem viewer_back_returns_to_contents:
  "(fires inp RETRO_DEVICE_ID_JOYPAD_B s \<or> fires inp RETRO_DEVICE_ID_JOYPAD_START s \<longrightarrow>
      state (handle_page_input D inp s) = STATE_TOC
      \<and> toc_cursor (handle_page_input D inp s) = current_page (handle_page_input D inp s)
      \<and> toc_scroll (handle_page_input D inp s) \<le> toc_cursor (handle_page_input D inp s)
      \<and> toc_cursor (handle_page_input D inp s)
          < toc_scroll (handle_page_input D inp s) + (CONTENT_ROWS - 3)
      \<and> toc_scroll (handle_page_input D inp s)
          = (if toc_cursor (handle_page_input D inp s) < toc_scroll s
             then toc_cursor (handle_page_input D inp s)
             else if toc_cursor (handle_page_input D inp s) \<ge> toc_scroll s + (CONTENT_ROWS - 3)
             then toc_cursor (handle_page_input D inp s) - (CONTENT_ROWS - 3) + 1
             else toc_scroll s))
   \<and> ((fires inp RETRO_DEVICE_ID_JOYPAD_B s \<or> fires inp RETRO_DEVICE_ID_JOYPAD_START s)
        \<and> \<not> fires inp RETRO_DEVICE_ID_JOYPAD_LEFT s
        \<and> \<not> fires inp RETRO_DEVICE_ID_JOYPAD_RIGHT s \<longrightarrow>
      toc_cursor (handle_page_input D inp s) = current_page s)
   \<and> state (page_back t) = STATE_TOC
   \<and> toc_cursor (page_back t) = current_page t
   \<and> current_page (page_back t) = current_page t
   \<and> toc_scroll (page_back t)
        = (if current_page t < toc_scroll t then current_page t
           else if current_page t \<ge> toc_scroll t + (CONTENT_ROWS - 3)
           then current_page t - (CONTENT_ROWS - 3) + 1
           else toc_scroll t)"
proof -
  define m where "m = max 0 (line_count (wiki_pages D ! nat (current_page s)) - CONTENT_ROWS)"
  define s4 where "s4 =
    on_press inp RETRO_DEVICE_ID_JOYPAD_R (page_view_down m)
      (on_press inp RETRO_DEVICE_ID_JOYPAD_L page_view_up
        (on_press inp RETRO_DEVICE_ID_JOYPAD_DOWN (page_line_down m)
          (on_press inp RETRO_DEVICE_ID_JOYPAD_UP page_line_up s)))"
  define s6 where "s6 =
    on_press inp RETRO_DEVICE_ID_JOYPAD_RIGHT (page_next D)
      (on_press inp RETRO_DEVICE_ID_JOYPAD_LEFT (page_prev D) s4)"
  have frame: "handle_page_input D inp s =
      on_press_either inp RETRO_DEVICE_ID_JOYPAD_B RETRO_DEVICE_ID_JOYPAD_START page_back s6"
    by (simp only: handle_page_input_last s6_def s4_def m_def)
  have b6: "fires inp RETRO_DEVICE_ID_JOYPAD_B s6 = fires inp RETRO_DEVICE_ID_JOYPAD_B s"
    and st6: "fires inp RETRO_DEVICE_ID_JOYPAD_START (poll inp RETRO_DEVICE_ID_JOYPAD_B s6)
      = fires inp RETRO_DEVICE_ID_JOYPAD_START s"
    unfolding s6_def s4_def
    by (simp_all add: fires_on_press fires_poll_other fires_page_blocks joypad_ids)
  have l4: "fires inp RETRO_DEVICE_ID_JOYPAD_LEFT s4 = fires inp RETRO_DEVICE_ID_JOYPAD_LEFT s"
    and r4: "fires inp RETRO_DEVICE_ID_JOYPAD_RIGHT (poll inp RETRO_DEVICE_ID_JOYPAD_LEFT s4)
      = fires inp RETRO_DEVICE_ID_JOYPAD_RIGHT s"
    unfolding s4_def
    by (simp_all add: fires_on_press fires_poll_other fires_page_blocks joypad_ids)
  have keep4: "toc_scroll s4 = toc_scroll s \<and> current_page s4 = current_page s"
    unfolding s4_def
    by (simp add: on_press_keeps [where f = toc_scroll] on_press_keeps [where f = current_page]
          poll_fields page_blocks Let_def)
  have keep6: "toc_scroll s6 = toc_scroll s"
    using keep4 unfolding s6_def
    by (simp add: on_press_keeps [where f = toc_scroll] poll_fields page_blocks Let_def)
  have block: "state (page_back u) = STATE_TOC
   \<and> toc_cursor (page_back u) = current_page u
   \<and> current_page (page_back u) = current_page u
   \<and> toc_scroll (page_back u)
        = (if current_page u < toc_scroll u then current_page u
           else if current_page u \<ge> toc_scroll u + (CONTENT_ROWS - 3)
           then current_page u - (CONTENT_ROWS - 3) + 1
           else toc_scroll u)" for u
    by (simp add: page_back_def Let_def CONTENT_ROWS_def)
  have fired: "\<exists>u. handle_page_input D inp s = page_back u
      \<and> toc_scroll u = toc_scroll s \<and> current_page u = current_page s6"
    if "fires inp RETRO_DEVICE_ID_JOYPAD_B s \<or> fires inp RETRO_DEVICE_ID_JOYPAD_START s"
  proof (cases "fires inp RETRO_DEVICE_ID_JOYPAD_B s")
    case True
    then have "handle_page_input D inp s = page_back (poll inp RETRO_DEVICE_ID_JOYPAD_B s6)"
      using b6 by (simp add: frame on_press_either_eq)
    then show ?thesis using keep6 by (auto simp add: poll_fields)
  next
    case False
    then have "handle_page_input D inp s
        = page_back (poll inp RETRO_DEVICE_ID_JOYPAD_START (poll inp RETRO_DEVICE_ID_JOYPAD_B s6))"
      using that b6 st6 by (simp add: frame on_press_either_eq)
    then show ?thesis using keep6 by (auto simp add: poll_fields)
  qed
  have general: "state (handle_page_input D inp s) = STATE_TOC
      \<and> toc_cursor (handle_page_input D inp s) = current_page (handle_page_input D inp s)
      \<and> toc_scroll (handle_page_input D inp s) \<le> toc_cursor (handle_page_input D inp s)
      \<and> toc_cursor (handle_page_input D inp s)
          < toc_scroll (handle_page_input D inp s) + (CONTENT_ROWS - 3)
      \<and> toc_scroll (handle_page_input D inp s)
          = (if toc_cursor (handle_page_input D inp s) < toc_scroll s
             then toc_cursor (handle_page_input D inp s)
             else if toc_cursor (handle_page_input D inp s) \<ge> toc_scroll s + (CONTENT_ROWS - 3)
             then toc_cursor (handle_page_input D inp s) - (CONTENT_ROWS - 3) + 1
             else toc_scroll s)"
    if bpress: "fires inp RETRO_DEVICE_ID_JOYPAD_B s \<or> fires inp RETRO_DEVICE_ID_JOYPAD_START s"
  proof -
    obtain u where u: "handle_page_input D inp s = page_back u" "toc_scroll u = toc_scroll s"
      using fired [OF bpress] by blast
    show ?thesis using block [of u] u by (simp add: CONTENT_ROWS_def)
  qed
  have alone: "toc_cursor (handle_page_input D inp s) = current_page s"
    if bpress: "fires inp RETRO_DEVICE_ID_JOYPAD_B s \<or> fires inp RETRO_DEVICE_ID_JOYPAD_START s"
      and stay: "\<not> fires inp RETRO_DEVICE_ID_JOYPAD_LEFT s"
        "\<not> fires inp RETRO_DEVICE_ID_JOYPAD_RIGHT s"
  proof -
    obtain u where u: "handle_page_input D inp s = page_back u" "current_page u = current_page s6"
      using fired [OF bpress] by blast
    have "current_page s6 = current_page s4"
      using stay l4 r4 unfolding s6_def
      by (simp add: on_press_eq poll_fields)
    then show ?thesis using block [of u] u keep4 by simp
  qed
  from general alone block [of t] show ?thesis by blast
qed

theorem viewer_back_returns_to_contents_witness:
  "fires (buttons_down [RETRO_DEVICE_ID_JOYPAD_B]) RETRO_DEVICE_ID_JOYPAD_B (viewing_at 29 4 0)
   \<and> state (handle_page_input (sample_rom 30 100) (buttons_down [RETRO_DEVICE_ID_JOYPAD_B])
        (viewing_at 29 4 0)) = STATE_TOC
   \<and> toc_cursor (handle_page_input (sample_rom 30 100) (buttons_down [RETRO_DEVICE_ID_JOYPAD_B])
        (viewing_at 29 4 0)) = 29
   \<and> toc_scroll (handle_page_input (sample_rom 30 100) (buttons_down [RETRO_DEVICE_ID_JOYPAD_B])
        (viewing_at 29 4 0)) = 8"
proof -
  let ?inp = "buttons_down [RETRO_DEVICE_ID_JOYPAD_B]"
  let ?s = "viewing_at 29 4 0"
  have pressed: "fires ?inp RETRO_DEVICE_ID_JOYPAD_B ?s"
    "\<not> fires ?inp RETRO_DEVICE_ID_JOYPAD_LEFT ?s" "\<not> fires ?inp RETRO_DEVICE_ID_JOYPAD_RIGHT ?s"
    by (simp_all add: fires_eq buttons_down_def viewing_at_def retro_load_game_def
        spec_press_def int_wrap_def joypad_ids)
  have start: "current_page ?s = 29" "toc_scroll ?s = 0" "CONTENT_ROWS - 3 = 22"
    by (simp_all add: viewing_at_def CONTENT_ROWS_def)
  show ?thesis
    using viewer_back_returns_to_contents [of ?inp ?s "sample_rom 30 100" ?s] pressed start
    by simp
qed


text \<open>
  The claim as stated fails: Back does not snap the offset to the cursor. In a catalog of
  100 documents, with the Contents list scrolled to 0, Back from document 50 sets the
  cursor to 50 and the offset to 29 (the cursor becomes the last visible row), and Back
  from document 5 leaves the offset at 0; the offset bound is 78 in both cases.
\<close>

theorem viewer_back_does_not_snap:
  "fires (buttons_down [RETRO_DEVICE_ID_JOYPAD_B]) RETRO_DEVICE_ID_JOYPAD_B (viewing_at 50 0 0)
   \<and> state (handle_page_input (sample_rom 100 30) (buttons_down [RETRO_DEVICE_ID_JOYPAD_B])
        (viewing_at 50 0 0)) = STATE_TOC
   \<and> toc_cursor (handle_page_input (sample_rom 100 30) (buttons_down [RETRO_DEVICE_ID_JOYPAD_B])
        (viewing_at 50 0 0)) = 50
   \<and> toc_scroll (handle_page_input (sample_rom 100 30) (buttons_down [RETRO_DEVICE_ID_JOYPAD_B])
        (viewing_at 50 0 0)) = 29
   \<and> fires (buttons_down [RETRO_DEVICE_ID_JOYPAD_B]) RETRO_DEVICE_ID_JOYPAD_B (viewing_at 5 0 0)
   \<and> toc_cursor (handle_page_input (sample_rom 100 30) (buttons_down [RETRO_DEVICE_ID_JOYPAD_B])
        (viewing_at 5 0 0)) = 5
   \<and> toc_scroll (handle_page_input (sample_rom 100 30) (buttons_down [RETRO_DEVICE_ID_JOYPAD_B])
        (viewing_at 5 0 0)) = 0
   \<and> max 0 (WIKI_PAGE_COUNT (sample_rom 100 30) - (CONTENT_ROWS - 3)) = 78"
  by (simp add: frame_eval)

text \<open>
  Claim C7. In the Viewing screen a firing Left press switches to the previous document
  and a firing Right press to the next one, wrapping at the ends of the catalog (from
  index 0 to \<open>N - 1\<close>, and from \<open>N - 1\<close> to 0), and every frame in which Left or Right
  fires ends with the viewer scroll offset at 0.
\<close>

theorem viewer_prev_next_wraps:
  "(fires inp RETRO_DEVICE_ID_JOYPAD_LEFT s \<or> fires inp RETRO_DEVICE_ID_JOYPAD_RIGHT s \<longrightarrow>
      page_scroll (handle_page_input D inp s) = 0)
   \<and> (fires inp RETRO_DEVICE_ID_JOYPAD_LEFT s \<and> \<not> fires inp RETRO_DEVICE_ID_JOYPAD_RIGHT s \<longrightarrow>
      current_page (handle_page_input D inp s)
        = (if current_page s \<le> 0 then WIKI_PAGE_COUNT D - 1 else current_page s - 1))
   \<and> (fires inp RETRO_DEVICE_ID_JOYPAD_RIGHT s \<and> \<not> fires inp RETRO_DEVICE_ID_JOYPAD_LEFT s \<longrightarrow>
      current_page (handle_page_input D inp s)
        = (if current_page s \<ge> WIKI_PAGE_COUNT D - 1 then 0 else current_page s + 1))
   \<and> current_page (page_prev D t)
        = (if current_page t \<le> 0 then WIKI_PAGE_COUNT D - 1 else current_page t - 1)
   \<and> page_scroll (page_prev D t) = 0
   \<and> current_page (page_next D t)
        = (if current_page t \<ge> WIKI_PAGE_COUNT D - 1 then 0 else current_page t + 1)
   \<and> page_scroll (page_next D t) = 0"
proof -
  define m where "m = max 0 (line_count (wiki_pages D ! nat (current_page s)) - CONTENT_ROWS)"
  define s4 where "s4 =
    on_press inp RETRO_DEVICE_ID_JOYPAD_R (page_view_down m)
      (on_press inp RETRO_DEVICE_ID_JOYPAD_L page_view_up
        (on_press inp RETRO_DEVICE_ID_JOYPAD_DOWN (page_line_down m)
          (on_press inp RETRO_DEVICE_ID_JOYPAD_UP page_line_up s)))"
  define s5 where "s5 = on_press inp RETRO_DEVICE_ID_JOYPAD_LEFT (page_prev D) s4"
  define s6 where "s6 = on_press inp RETRO_DEVICE_ID_JOYPAD_RIGHT (page_next D) s5"
  have frame: "handle_page_input D inp s =
      on_press_either inp RETRO_DEVICE_ID_JOYPAD_B RETRO_DEVICE_ID_JOYPAD_START page_back s6"
    by (simp only: handle_page_input_last s6_def s5_def s4_def m_def)
  have l4: "fires inp RETRO_DEVICE_ID_JOYPAD_LEFT s4 = fires inp RETRO_DEVICE_ID_JOYPAD_LEFT s"
    and r5: "fires inp RETRO_DEVICE_ID_JOYPAD_RIGHT s5 = fires inp RETRO_DEVICE_ID_JOYPAD_RIGHT s"
    unfolding s5_def s4_def
    by (simp_all add: fires_on_press fires_page_blocks joypad_ids)
  have keep4: "current_page s4 = current_page s"
    unfolding s4_def
    by (simp add: on_press_keeps [where f = current_page] poll_fields page_blocks Let_def)
  have last: "page_scroll (handle_page_input D inp s) = page_scroll s6
      \<and> current_page (handle_page_input D inp s) = current_page s6"
    by (simp add: frame on_press_either_keeps [where f = page_scroll]
          on_press_either_keeps [where f = current_page] poll_fields page_back_def Let_def)
  have block: "current_page (page_prev D u)
        = (if current_page u \<le> 0 then WIKI_PAGE_COUNT D - 1 else current_page u - 1)
   \<and> page_scroll (page_prev D u) = 0
   \<and> current_page (page_next D u)
        = (if current_page u \<ge> WIKI_PAGE_COUNT D - 1 then 0 else current_page u + 1)
   \<and> page_scroll (page_next D u) = 0" for u
    by (simp add: page_prev_def page_next_def Let_def)
  have s5_left: "s5 = page_prev D (poll inp RETRO_DEVICE_ID_JOYPAD_LEFT s4)"
    if "fires inp RETRO_DEVICE_ID_JOYPAD_LEFT s"
    using that l4 by (simp add: s5_def on_press_eq)
  have s5_idle: "s5 = poll inp RETRO_DEVICE_ID_JOYPAD_LEFT s4"
    if "\<not> fires inp RETRO_DEVICE_ID_JOYPAD_LEFT s"
    using that l4 by (simp add: s5_def on_press_eq)
  have s6_right: "s6 = page_next D (poll inp RETRO_DEVICE_ID_JOYPAD_RIGHT s5)"
    if "fires inp RETRO_DEVICE_ID_JOYPAD_RIGHT s"
    using that r5 by (simp add: s6_def on_press_eq)
  have s6_idle: "s6 = poll inp RETRO_DEVICE_ID_JOYPAD_RIGHT s5"
    if "\<not> fires inp RETRO_DEVICE_ID_JOYPAD_RIGHT s"
    using that r5 by (simp add: s6_def on_press_eq)
  have reset: "page_scroll (handle_page_input D inp s) = 0"
    if "fires inp RETRO_DEVICE_ID_JOYPAD_LEFT s \<or> fires inp RETRO_DEVICE_ID_JOYPAD_RIGHT s"
  proof (cases "fires inp RETRO_DEVICE_ID_JOYPAD_RIGHT s")
    case True
    then show ?thesis
      using last s6_right block [of "poll inp RETRO_DEVICE_ID_JOYPAD_RIGHT s5"] by simp
  next
    case False
    then have "fires inp RETRO_DEVICE_ID_JOYPAD_LEFT s" using that by simp
    then show ?thesis
      using False last s6_idle s5_left block [of "poll inp RETRO_DEVICE_ID_JOYPAD_LEFT s4"]
      by (simp add: poll_fields)
  qed
  have prev: "current_page (handle_page_input D inp s)
        = (if current_page s \<le> 0 then WIKI_PAGE_COUNT D - 1 else current_page s - 1)"
    if "fires inp RETRO_DEVICE_ID_JOYPAD_LEFT s" "\<not> fires inp RETRO_DEVICE_ID_JOYPAD_RIGHT s"
    using last s6_idle [OF that(2)] s5_left [OF that(1)] keep4
      block [of "poll inp RETRO_DEVICE_ID_JOYPAD_LEFT s4"]
    by (simp add: poll_fields)
  have "next": "current_page (handle_page_input D inp s)
        = (if current_page s \<ge> WIKI_PAGE_COUNT D - 1 then 0 else current_page s + 1)"
    if "fires inp RETRO_DEVICE_ID_JOYPAD_RIGHT s" "\<not> fires inp RETRO_DEVICE_ID_JOYPAD_LEFT s"
    using last s6_right [OF that(1)] s5_idle [OF that(2)] keep4
      block [of "poll inp RETRO_DEVICE_ID_JOYPAD_RIGHT s5"]
    by (simp add: poll_fields)
  from reset prev "next" block [of t] show ?thesis by blast
qed

theorem viewer_prev_next_wraps_witness:
  "fires (buttons_down [RETRO_DEVICE_ID_JOYPAD_LEFT]) RETRO_DEVICE_ID_JOYPAD_LEFT (viewing_at 0 4 0)
   \<and> current_page (handle_page_input (sample_rom 30 100)
        (buttons_down [RETRO_DEVICE_ID_JOYPAD_LEFT]) (viewing_at 0 4 0)) = 29
   \<and> page_scroll (handle_page_input (sample_rom 30 100)
        (buttons_down [RETRO_DEVICE_ID_JOYPAD_LEFT]) (viewing_at 0 4 0)) = 0
   \<and> fires (buttons_down [RETRO_DEVICE_ID_JOYPAD_RIGHT]) RETRO_DEVICE_ID_JOYPAD_RIGHT
        (viewing_at 29 4 0)
   \<and> current_page (handle_page_input (sample_rom 30 100)
        (buttons_down [RETRO_DEVICE_ID_JOYPAD_RIGHT]) (viewing_at 29 4 0)) = 0
   \<and> page_scroll (handle_page_input (sample_rom 30 100)
        (buttons_down [RETRO_DEVICE_ID_JOYPAD_RIGHT]) (viewing_at 29 4 0)) = 0"
proof -
  let ?lt = "buttons_down [RETRO_DEVICE_ID_JOYPAD_LEFT]"
  let ?rt = "buttons_down [RETRO_DEVICE_ID_JOYPAD_RIGHT]"
  have pressed: "fires ?lt RETRO_DEVICE_ID_JOYPAD_LEFT (viewing_at 0 4 0)"
    "\<not> fires ?lt RETRO_DEVICE_ID_JOYPAD_RIGHT (viewing_at 0 4 0)"
    "fires ?rt RETRO_DEVICE_ID_JOYPAD_RIGHT (viewing_at 29 4 0)"
    "\<not> fires ?rt RETRO_DEVICE_ID_JOYPAD_LEFT (viewing_at 29 4 0)"
    by (simp_all add: fires_eq buttons_down_def viewing_at_def retro_load_game_def
        spec_press_def int_wrap_def joypad_ids)
  have start: "current_page (viewing_at 0 4 0) = 0" "current_page (viewing_at 29 4 0) = 29"
    "WIKI_PAGE_COUNT (sample_rom 30 100) = 30"
    by (simp_all add: viewing_at_def WIKI_PAGE_COUNT_def sample_rom_def)
  show ?thesis
    using viewer_prev_next_wraps [of ?lt "viewing_at 0 4 0" "sample_rom 30 100" "viewing_at 0 4 0"]
      viewer_prev_next_wraps [of ?rt "viewing_at 29 4 0" "sample_rom 30 100" "viewing_at 0 4 0"]
      pressed start
    by simp
qed

section \<open>The boot screen is drawn from scratch\<close>

lemma fill_prefix:
  "k \<le> length fb \<Longrightarrow> fold (\<lambda>i fb. fb[i := c]) [0..<k] fb = replicate k c @ drop k fb"
proof (induction k)
  case 0
  then show ?case by simp
next
  case (Suc k)
  then have k: "k < length fb" by simp
  have "fold (\<lambda>i fb. fb[i := c]) [0..<Suc k] fb = (replicate k c @ drop k fb)[k := c]"
    using Suc by simp
  also have "\<dots> = replicate k c @ (drop k fb)[0 := c]"
    by (simp add: list_update_append)
  also have "drop k fb = fb ! k # drop (Suc k) fb"
    using k by (simp add: Cons_nth_drop_Suc)
  finally show ?case
    by (simp add: replicate_append_same)
qed

lemma fill_all:
  "length fb = n \<Longrightarrow> fold (\<lambda>i fb. fb[i := c]) [0..<n] fb = replicate n c"
  using fill_prefix [of n fb c] by simp

lemma render_clear_eq:
  assumes "length fb = nat (SCREEN_W * SCREEN_H)"
  shows "render_clear fb =
    fill_rect (BORDER_COLS * GLYPH_W) (BORDER_ROWS * GLYPH_H)
      ((TERM_COLS - BORDER_COLS) * GLYPH_W) ((TERM_ROWS - BORDER_ROWS) * GLYPH_H) COL_BG
      (replicate (nat (SCREEN_W * SCREEN_H)) COL_BORDER)"
  unfolding render_clear_def Let_def by (simp only: fill_all [OF assms])

text \<open>
  Claim C8. The boot screen drawn for a frame number does not depend on what the
  framebuffer held before: for every frame number (in particular every one in
  \<open>[0, 600)\<close>) and any two framebuffers of the screen's size, \<open>render_boot\<close> produces the
  same pixels.
\<close>

theorem render_boot_pure:
  assumes "length fb1 = nat (SCREEN_W * SCREEN_H)" and "length fb2 = nat (SCREEN_W * SCREEN_H)"
  shows "render_boot D frame fb1 = render_boot D frame fb2"
proof -
  have "render_clear fb1 = render_clear fb2"
    by (simp only: render_clear_eq [OF assms(1)] render_clear_eq [OF assms(2)])
  then show ?thesis
    unfolding render_boot_def Let_def by (simp only:)
qed

theorem render_boot_pure_witness:
  "length (replicate 307200 (0 :: u32)) = nat (SCREEN_W * SCREEN_H)
   \<and> length (replicate 307200 COL_FG) = nat (SCREEN_W * SCREEN_H)
   \<and> render_boot (sample_rom 3 100) 599 (replicate 307200 0)
       = render_boot (sample_rom 3 100) 599 (replicate 307200 COL_FG)"
proof -
  have a: "length (replicate 307200 (0 :: u32)) = nat (SCREEN_W * SCREEN_H)"
    by (simp add: SCREEN_W_def SCREEN_H_def)
  have b: "length (replicate 307200 COL_FG) = nat (SCREEN_W * SCREEN_H)"
    by (simp add: SCREEN_W_def SCREEN_H_def)
  show ?thesis
    using render_boot_pure [OF a b, of "sample_rom 3 100" 599] a b by blast
qed


section \<open>Leaving the boot screen\<close>

lemma any_btn_loop_iff:
  "any_btn_loop inp k = (\<exists>i. k \<le> i \<and> i < BTN_COUNT \<and> inp i \<noteq> 0)"
proof (induction inp k rule: any_btn_loop.induct)
  case (1 inp i)
  show ?case
  proof (cases "i < BTN_COUNT")
    case False
    then show ?thesis by (subst any_btn_loop.simps) auto
  next
    case True
    show ?thesis
    proof (cases "inp i = 0")
      case False
      then show ?thesis using True by (subst any_btn_loop.simps) auto
    next
      case z: True
      have "any_btn_loop inp i = any_btn_loop inp (i + 1)"
        using True z by (subst any_btn_loop.simps) simp
      also have "\<dots> = (\<exists>j. i + 1 \<le> j \<and> j < BTN_COUNT \<and> inp j \<noteq> 0)"
        using "1.IH" True z by simp
      also have "\<dots> = (\<exists>j. i \<le> j \<and> j < BTN_COUNT \<and> inp j \<noteq> 0)"
        using z by (metis Suc_eq_plus1 Suc_leD Suc_leI le_neq_implies_less)
      finally show ?thesis .
    qed
  qed
qed

lemma any_btn_pressed_iff: "any_btn_pressed inp = (\<exists>i<BTN_COUNT. inp i \<noteq> 0)"
  by (simp add: any_btn_pressed_def any_btn_loop_iff)

text \<open>
  The part of claim C9 that the code meets: a frame in the Booting state ends in Contents
  exactly when the incremented boot counter has reached \<open>BOOT_FRAMES\<close> or some joypad
  button reads down, and then every held-frame counter is 0.
\<close>

lemma boot_frame_transition:
  assumes "game_loaded s" and "state s = STATE_BOOT"
  shows "(state (fst (retro_run D inp s)) = STATE_TOC)
      = (boot_timer s + 1 \<ge> BOOT_FRAMES \<or> (\<exists>i<BTN_COUNT. inp i \<noteq> 0))"
    and "state (fst (retro_run D inp s)) = STATE_TOC
      \<Longrightarrow> held_frames (fst (retro_run D inp s)) = (\<lambda>_. 0)"
    and "boot_timer (fst (retro_run D inp s)) = boot_timer s + 1"
  using assms
  by (auto simp add: retro_run_def Let_def any_btn_pressed_iff split: if_splits)

text \<open>
  The part it does not meet: the counters being all 0 after the transition, a button that
  is still down on the next frame counts from 0 to 1 there and fires as an initial press.
\<close>

lemma boot_skip_press_fires_next_frame:
  assumes "game_loaded s" and "state s = STATE_BOOT" and "b < BTN_COUNT" and "inp b \<noteq> 0"
  shows "state (fst (retro_run D inp s)) = STATE_TOC"
    and "fires inp b (fst (retro_run D inp s))"
  using assms
  by (auto simp add: retro_run_def Let_def any_btn_pressed_iff fires_eq spec_press_def int_wrap_def)

text \<open>
  Claim C9 at a concrete input: after a load, a first frame with A down leaves Booting for
  Contents with all counters cleared; a second frame with A still down fires that press
  in Contents and opens document 0.
\<close>

theorem boot_skip_press_fires_in_contents:
  "state (run_calls (sample_rom 3 100) [CALL_RUN (buttons_down [RETRO_DEVICE_ID_JOYPAD_A])]
      (snd (retro_load_game True True power_on))) = STATE_TOC
   \<and> held_frames (run_calls (sample_rom 3 100) [CALL_RUN (buttons_down [RETRO_DEVICE_ID_JOYPAD_A])]
      (snd (retro_load_game True True power_on))) = (\<lambda>_. 0)
   \<and> fires (buttons_down [RETRO_DEVICE_ID_JOYPAD_A]) RETRO_DEVICE_ID_JOYPAD_A
       (run_calls (sample_rom 3 100) [CALL_RUN (buttons_down [RETRO_DEVICE_ID_JOYPAD_A])]
         (snd (retro_load_game True True power_on)))
   \<and> state (run_calls (sample_rom 3 100)
       [CALL_RUN (buttons_down [RETRO_DEVICE_ID_JOYPAD_A]),
        CALL_RUN (buttons_down [RETRO_DEVICE_ID_JOYPAD_A])]
       (snd (retro_load_game True True power_on))) = STATE_PAGE"
proof -
  let ?inp = "buttons_down [RETRO_DEVICE_ID_JOYPAD_A]"
  let ?s0 = "snd (retro_load_game True True power_on)"
  let ?s1 = "fst (retro_run (sample_rom 3 100) ?inp ?s0)"
  have down: "\<exists>i<BTN_COUNT. ?inp i \<noteq> 0"
    by (rule exI [of _ RETRO_DEVICE_ID_JOYPAD_A])
       (simp add: buttons_down_def BTN_COUNT_def joypad_ids)
  have s1: "state ?s1 = STATE_TOC" "held_frames ?s1 = (\<lambda>_. 0)" "game_loaded ?s1"
    using down
    by (simp_all add: retro_run_def Let_def any_btn_pressed_iff retro_load_game_def)
  have f1: "fires ?inp RETRO_DEVICE_ID_JOYPAD_A ?s1"
    using s1(2) by (simp add: fires_eq spec_press_def int_wrap_def buttons_down_def)
  have idle: "\<not> fires ?inp RETRO_DEVICE_ID_JOYPAD_UP ?s1"
    "\<not> fires ?inp RETRO_DEVICE_ID_JOYPAD_DOWN ?s1"
    "\<not> fires ?inp RETRO_DEVICE_ID_JOYPAD_L ?s1"
    "\<not> fires ?inp RETRO_DEVICE_ID_JOYPAD_R ?s1"
    "\<not> fires ?inp RETRO_DEVICE_ID_JOYPAD_LEFT ?s1"
    by (simp_all add: fires_eq buttons_down_def joypad_ids)
  have "handle_toc_input (sample_rom 3 100) ?inp ?s1
      = poll ?inp RETRO_DEVICE_ID_JOYPAD_LEFT
          (toc_open (poll ?inp RETRO_DEVICE_ID_JOYPAD_A
            (poll ?inp RETRO_DEVICE_ID_JOYPAD_R (poll ?inp RETRO_DEVICE_ID_JOYPAD_L
              (poll ?inp RETRO_DEVICE_ID_JOYPAD_DOWN (poll ?inp RETRO_DEVICE_ID_JOYPAD_UP ?s1))))))"
    using f1 idle
    by (simp add: handle_toc_input_last on_press_eq on_press_either_eq fires_poll_other
          fires_toc_blocks joypad_ids)
  then have "state (handle_toc_input (sample_rom 3 100) ?inp ?s1) = STATE_PAGE"
    by (simp add: poll_fields toc_open_def)
  then have "state (fst (retro_run (sample_rom 3 100) ?inp ?s1)) = STATE_PAGE"
    using s1 by (simp add: retro_run_def Let_def)
  then show ?thesis
    using s1 f1 by (simp add: run_calls_def)
qed


section \<open>Frames without a loaded game\<close>

text \<open>
  Claim C10. When no game is loaded (initially, after a failed load, or after
  \<open>retro_unload_game\<close>), \<open>retro_run\<close> returns at once: it makes no host call (no input
  poll, no video refresh, no audio batch) and leaves the whole session state as it was.
\<close>

theorem retro_run_without_game:
  "(\<not> game_loaded s \<longrightarrow> retro_run D inp s = (s, []))
   \<and> retro_run D inp power_on = (power_on, [])
   \<and> retro_run D inp (retro_unload_game t) = (retro_unload_game t, [])
   \<and> (\<not> game_loaded s \<longrightarrow>
        retro_run D inp (snd (retro_load_game False fmt_ok s))
          = (snd (retro_load_game False fmt_ok s), [])
        \<and> retro_run D inp (snd (retro_load_game has_path False s))
          = (snd (retro_load_game has_path False s), []))"
  by (simp add: retro_run_def retro_unload_game_def retro_load_game_def power_on_def)

theorem retro_run_without_game_witness:
  "\<not> game_loaded (retro_unload_game (contents_at 2 0))
   \<and> retro_run (sample_rom 3 100) (buttons_down [RETRO_DEVICE_ID_JOYPAD_DOWN])
        (retro_unload_game (contents_at 2 0))
      = (retro_unload_game (contents_at 2 0), [])
   \<and> toc_cursor (fst (retro_run (sample_rom 3 100) (buttons_down [RETRO_DEVICE_ID_JOYPAD_DOWN])
        (retro_unload_game (contents_at 2 0)))) = 2"
proof -
  have unloaded: "\<not> game_loaded (retro_unload_game (contents_at 2 0))"
    by (simp add: retro_unload_game_def)
  have cursor: "toc_cursor (retro_unload_game (contents_at 2 0)) = 2"
    by (simp add: retro_unload_game_def contents_at_def)
  show ?thesis
    using retro_run_without_game [of "retro_unload_game (contents_at 2 0)" "sample_rom 3 100"
        "buttons_down [RETRO_DEVICE_ID_JOYPAD_DOWN]"] unloaded cursor
    by simp
qed

end
